theory Spec2Isabelle
  imports Complex_Main "HOL-Library.Sublist" "HOL-Library.Log_Nat"
begin

section \<open>The menu Result Set\<close>

text \<open>
  The dashboard's canned query selects seven columns of the MENU table. A row of the
  resulting DataFrame is a record of these columns. The three text columns hold strings,
  the four numeric columns hold numbers; a SQL NULL (pandas None / NaN) is \<open>None\<close>.
  Numbers are rationals, as every finite float64 value is one: comparisons behave as on the
  stored values, and the rounding of float64 arithmetic is modelled where the program adds,
  in the sums of tab 2.
\<close>

record menu_row =
  MENU_ITEM_NAME :: "string option"
  ITEM_CATEGORY :: "string option"
  ITEM_SUBCATEGORY :: "string option"
  COST_OF_GOODS_USD :: "rat option"
  SALE_PRICE_USD :: "rat option"
  PROFIT :: "rat option"
  MARGIN_PERCENT :: "rat option"

type_synonym dataframe = "menu_row list"

text \<open>\<^verbatim>\<open>df['COL']\<close>: the Series of one column, in row order.\<close>

definition column :: "(menu_row \<Rightarrow> 'a) \<Rightarrow> dataframe \<Rightarrow> 'a list" where
  "column c df = map c df"

text \<open>\<^verbatim>\<open>Series.isin(values)\<close>: elementwise membership; a missing value matches a missing value.\<close>

definition isin :: "'a list \<Rightarrow> 'a list \<Rightarrow> bool list" where
  "isin s vals = map (\<lambda>v. v \<in> set vals) s"

text \<open>\<^verbatim>\<open>Series >= x\<close> and \<^verbatim>\<open>Series <= x\<close>: elementwise comparison; a missing value compares False.\<close>

definition series_ge :: "rat option list \<Rightarrow> rat \<Rightarrow> bool list" where
  "series_ge s x = map (\<lambda>v. case v of None \<Rightarrow> False | Some p \<Rightarrow> x \<le> p) s"

definition series_le :: "rat option list \<Rightarrow> rat \<Rightarrow> bool list" where
  "series_le s x = map (\<lambda>v. case v of None \<Rightarrow> False | Some p \<Rightarrow> p \<le> x) s"

text \<open>\<^verbatim>\<open>a & b\<close> on boolean Series of one DataFrame: elementwise conjunction.\<close>

definition mask_and :: "bool list \<Rightarrow> bool list \<Rightarrow> bool list" where
  "mask_and a b = map2 (\<and>) a b"

text \<open>\<^verbatim>\<open>df[mask]\<close>: the rows whose mask entry is True.\<close>

definition boolean_index :: "'a list \<Rightarrow> bool list \<Rightarrow> 'a list" where
  "boolean_index df m = map fst (filter snd (zip df m))"

text \<open>
  The Filter Parameters: what the two multiselects and the range slider return.
\<close>

record filter_params =
  categorias :: "string option list"
  subcategorias :: "string option list"
  preco_min :: rat
  preco_max :: rat

text \<open>The boolean mask of tab 2, lines 243 to 246; \<^verbatim>\<open>&\<close> associates to the left.\<close>

definition filter_mask :: "dataframe \<Rightarrow> filter_params \<Rightarrow> bool list" where
  "filter_mask df F =
     mask_and
       (mask_and
         (mask_and
           (isin (column ITEM_CATEGORY df) (categorias F))
           (isin (column ITEM_SUBCATEGORY df) (subcategorias F)))
         (series_ge (column SALE_PRICE_USD df) (preco_min F)))
       (series_le (column SALE_PRICE_USD df) (preco_max F))"

text \<open>The filtered subset of tab 2, line 242: the DataFrame indexed by the mask.\<close>

definition df_filtrado :: "dataframe \<Rightarrow> filter_params \<Rightarrow> dataframe" where
  "df_filtrado df F = boolean_index df (filter_mask df F)"

subsection \<open>The three conditions of the specification\<close>

definition cond_category :: "filter_params \<Rightarrow> menu_row \<Rightarrow> bool" where
  "cond_category F r \<longleftrightarrow> ITEM_CATEGORY r \<in> set (categorias F)"

definition cond_subcategory :: "filter_params \<Rightarrow> menu_row \<Rightarrow> bool" where
  "cond_subcategory F r \<longleftrightarrow> ITEM_SUBCATEGORY r \<in> set (subcategorias F)"

definition cond_price :: "filter_params \<Rightarrow> menu_row \<Rightarrow> bool" where
  "cond_price F r \<longleftrightarrow>
     (case SALE_PRICE_USD r of None \<Rightarrow> False | Some p \<Rightarrow> preco_min F \<le> p \<and> p \<le> preco_max F)"

definition satisfies :: "filter_params \<Rightarrow> menu_row \<Rightarrow> bool" where
  "satisfies F r \<longleftrightarrow> cond_category F r \<and> cond_subcategory F r \<and> cond_price F r"

subsection \<open>Aggregates of the filtered subset\<close>

text \<open>
  The numeric columns hold float64 values, and \<^verbatim>\<open>Series.sum()\<close> adds them in float64
  arithmetic. A float64 value is a rational, plus or minus infinity, or NaN; a missing cell
  of a column is \<open>None\<close> in the row, so that \<open>NaN\<close> below only arises from adding opposite
  infinities.
\<close>

definition present :: "rat option \<Rightarrow> rat" where
  "present v = (case v of None \<Rightarrow> 0 | Some x \<Rightarrow> x)"

datatype f64 = Fin rat | PInf | NInf | NaN

text \<open>The binary exponent of a rational \<open>q \<noteq> 0\<close>: the integer \<open>e\<close> with \<open>2\<^sup>e \<le> |q| < 2\<^sup>e\<^sup>+\<^sup>1\<close>.\<close>

definition exponent :: "rat \<Rightarrow> int" where
  "exponent q = (if 1 \<le> \<bar>q\<bar> then bitlen \<lfloor>\<bar>q\<bar>\<rfloor> - 1 else - bitlen (\<lceil>1 / \<bar>q\<bar>\<rceil> - 1))"

text \<open>Rounding to the nearest integer, a tie going to the even one.\<close>

definition round_half_even :: "rat \<Rightarrow> int" where
  "round_half_even x =
     (let f = \<lfloor>x\<rfloor>; d = x - of_int f
      in if d < 1/2 then f else if 1/2 < d then f + 1 else if even f then f else f + 1)"

text \<open>
  Rounding of an exact result to float64, in the default mode (to nearest, ties to even):
  53 significant bits, the least exponent \<open>-1022\<close> with gradual underflow below it, and
  overflow to infinity when the rounded magnitude reaches \<open>2\<^sup>1\<^sup>0\<^sup>2\<^sup>4\<close>. The sign of a zero is
  not kept.
\<close>

definition round_f64 :: "rat \<Rightarrow> f64" where
  "round_f64 q =
     (if q = 0 then Fin 0
      else
        let ulp = 2 powi (max (exponent q) (- 1022) - 52);
            v = of_int (round_half_even (q / ulp)) * ulp
        in if 2 ^ 1024 \<le> v then PInf else if v \<le> - (2 ^ 1024) then NInf else Fin v)"

text \<open>Float64 addition.\<close>

fun fadd :: "f64 \<Rightarrow> f64 \<Rightarrow> f64" where
  "fadd (Fin a) (Fin b) = round_f64 (a + b)"
| "fadd NaN y = NaN"
| "fadd x NaN = NaN"
| "fadd PInf NInf = NaN"
| "fadd NInf PInf = NaN"
| "fadd PInf y = PInf"
| "fadd x PInf = PInf"
| "fadd NInf y = NInf"
| "fadd x NInf = NInf"

text \<open>
  \<^verbatim>\<open>Series.sum()\<close> on a float64 column replaces the missing cells by 0 and calls the array's
  \<^verbatim>\<open>sum\<close>, which is numpy's add-reduction: the result starts at 0 and the pairwise sum of
  the array is added to it. The pairwise sum of fewer than 8 elements adds them one by one
  from 0. Up to 128 elements it keeps eight accumulators, starting with the first eight
  elements, adds each further block of eight into them, combines them as
  \<open>((r\<^sub>0 + r\<^sub>1) + (r\<^sub>2 + r\<^sub>3)) + ((r\<^sub>4 + r\<^sub>5) + (r\<^sub>6 + r\<^sub>7))\<close> and then adds the remaining elements one
  by one. A longer array is split at half its length, rounded down to a multiple of 8, and
  the sums of the two parts are added.
\<close>

fun accumulate8 :: "f64 list \<Rightarrow> f64 list \<Rightarrow> f64 list \<times> f64 list" where
  "accumulate8 r xs =
     (if length xs < 8 then (r, xs)
      else accumulate8 (map2 fadd r (take 8 xs)) (drop 8 xs))"

definition tree8 :: "f64 list \<Rightarrow> f64" where
  "tree8 r = fadd (fadd (fadd (r ! 0) (r ! 1)) (fadd (r ! 2) (r ! 3)))
                  (fadd (fadd (r ! 4) (r ! 5)) (fadd (r ! 6) (r ! 7)))"

function pairwise_sum :: "f64 list \<Rightarrow> f64" where
  "pairwise_sum a =
     (let n = length a in
      if n < 8 then foldl fadd (Fin 0) a
      else if n \<le> 128 then
        (case accumulate8 (take 8 a) (drop 8 a) of (r, rest) \<Rightarrow> foldl fadd (tree8 r) rest)
      else
        (let n2 = n div 2 - (n div 2) mod 8
         in fadd (pairwise_sum (take n2 a)) (pairwise_sum (drop n2 a))))"
  by pat_completeness auto
termination
  by (relation "measure length") auto

definition series_sum :: "rat option list \<Rightarrow> f64" where
  "series_sum s = fadd (Fin 0) (pairwise_sum (map (\<lambda>v. Fin (present v)) s))"

text \<open>
  The three metrics of tab 2, lines 253 to 255. \<open>Count n\<close> is the integer shown as it is;
  \<open>Money x\<close> stands for the text that the format \<^verbatim>\<open>${x:,.2f}\<close> makes of the float64 \<open>x\<close>.
\<close>

datatype metric_value = Count nat | Money f64

definition filter_metrics :: "dataframe \<Rightarrow> (string \<times> metric_value) list" where
  "filter_metrics d =
     [(''Itens Filtrados'', Count (length d)),
      (''Receita Potencial'', Money (series_sum (column SALE_PRICE_USD d))),
      (''Lucro Potencial'', Money (series_sum (column PROFIT d)))]"

text \<open>
  Two notions for reasoning about sums that do not round: the rational a finite float64
  stands for, and the float64 values that are a multiple of \<open>2\<^sup>-\<^sup>k\<close> of magnitude at most \<open>m\<close>.
\<close>

definition val :: "f64 \<Rightarrow> rat" where
  "val x = (case x of Fin q \<Rightarrow> q | _ \<Rightarrow> 0)"

definition carries :: "nat \<Rightarrow> rat \<Rightarrow> f64 \<Rightarrow> bool" where
  "carries k m x \<longleftrightarrow> (\<exists>q. x = Fin q \<and> q * 2 ^ k \<in> \<int> \<and> \<bar>q\<bar> \<le> m)"

subsection \<open>The ten largest margins\<close>

text \<open>
  \<^verbatim>\<open>DataFrame.nlargest(n, col)\<close> on one column: the frame is renumbered from 0, the rows whose
  cell is missing are set aside, the others are ordered by descending value with ties in
  their original order (\<^verbatim>\<open>keep='first'\<close>), the rows set aside are put last, and the first
  \<open>n\<close> rows are returned, each with its position in the frame. When \<open>n\<close> is at least the
  number of rows pandas sorts the whole column instead; all rows are then returned, and the
  order among equal values is the one thing that may differ from this definition.
\<close>

definition nlargest :: "nat \<Rightarrow> (menu_row \<Rightarrow> rat option) \<Rightarrow> dataframe \<Rightarrow> (nat \<times> menu_row) list" where
  "nlargest n c df =
     (let frame = enumerate 0 df;
          dropped = filter (\<lambda>(i, r). c r \<noteq> None) frame;
          nan_index = filter (\<lambda>(i, r). c r = None) frame
      in take n (sort_key (\<lambda>(i, r). - present (c r)) dropped @ nan_index))"

text \<open>Line 170: the ten largest margins, projected to item name and margin.\<close>

definition top10 :: "dataframe \<Rightarrow> (nat \<times> string option \<times> rat option) list" where
  "top10 df =
     map (\<lambda>(i, r). (i, MENU_ITEM_NAME r, MARGIN_PERCENT r)) (nlargest 10 MARGIN_PERCENT df)"

text \<open>
  \<open>dominates m x\<close>: the margin \<open>m\<close> is at least the margin \<open>x\<close>. A missing \<open>x\<close> is below
  every margin, as it is ranked last; a present \<open>x\<close> needs a present \<open>m\<close> that is at least \<open>x\<close>.
\<close>

definition dominates :: "rat option \<Rightarrow> rat option \<Rightarrow> bool" where
  "dominates m x \<longleftrightarrow> (case x of None \<Rightarrow> True | Some v \<Rightarrow> (\<exists>y. m = Some y \<and> v \<le> y))"

text \<open>The whole frame in the order from which \<open>nlargest\<close> takes its first rows.\<close>

definition ranking :: "(menu_row \<Rightarrow> rat option) \<Rightarrow> dataframe \<Rightarrow> (nat \<times> menu_row) list" where
  "ranking c df =
     sort_key (\<lambda>(i, r). - present (c r)) (filter (\<lambda>(i, r). c r \<noteq> None) (enumerate 0 df))
       @ filter (\<lambda>(i, r). c r = None) (enumerate 0 df)"

subsection \<open>A sample Result Set\<close>

text \<open>
  Twenty menu rows in the two categories Dessert and Main, for evaluating the definitions
  on concrete data. Profit and margin are computed as the canned query computes them,
  without the rounding of the margin to two decimals.
\<close>

definition sample_row :: "string \<Rightarrow> string \<Rightarrow> string \<Rightarrow> rat \<Rightarrow> rat \<Rightarrow> menu_row" where
  "sample_row name cat sub cost price =
     \<lparr>MENU_ITEM_NAME = Some name, ITEM_CATEGORY = Some cat, ITEM_SUBCATEGORY = Some sub,
      COST_OF_GOODS_USD = Some cost, SALE_PRICE_USD = Some price,
      PROFIT = Some (price - cost),
      MARGIN_PERCENT = Some ((price - cost) / price * 100)\<rparr>"

definition sample_menu :: dataframe where
  "sample_menu =
    [sample_row ''Ice Cream Sandwich'' ''Dessert'' ''Cold Option'' (1) (4),
     sample_row ''Mango Sticky Rice'' ''Dessert'' ''Warm Option'' (5/4) (5),
     sample_row ''Popsicle'' ''Dessert'' ''Cold Option'' (1/2) (3),
     sample_row ''Waffle Cone'' ''Dessert'' ''Cold Option'' (5/2) (6),
     sample_row ''Sugar Cone'' ''Dessert'' ''Cold Option'' (5/2) (6),
     sample_row ''Two Scoop Bowl'' ''Dessert'' ''Cold Option'' (3) (7),
     sample_row ''Chocolate Lava Cake'' ''Dessert'' ''Warm Option'' (7/2) (10),
     sample_row ''Dessert Platter'' ''Dessert'' ''Warm Option'' (6) (12),
     sample_row ''Lean Burrito Bowl'' ''Main'' ''Warm Option'' (7/2) (25/2),
     sample_row ''Veggie Burger'' ''Main'' ''Hot Option'' (5) (9),
     sample_row ''Fried Pickles'' ''Main'' ''Hot Option'' (3/2) (6),
     sample_row ''The Gyro'' ''Main'' ''Warm Option'' (9/2) (11),
     sample_row ''Chicken Pot Pie Crepe'' ''Main'' ''Hot Option'' (5) (15),
     sample_row ''Lobster Mac and Cheese'' ''Main'' ''Hot Option'' (10) (15),
     sample_row ''Pastrami'' ''Main'' ''Cold Option'' (8) (11),
     sample_row ''Tonkotsu Ramen'' ''Main'' ''Warm Option'' (7) (69/4),
     sample_row ''Three Meat Plate'' ''Main'' ''Hot Option'' (10) (17),
     sample_row ''Fish Burrito'' ''Main'' ''Warm Option'' (15/4) (25/2),
     sample_row ''Italian'' ''Main'' ''Cold Option'' (13/2) (11),
     sample_row ''Hot Ham and Cheese'' ''Main'' ''Hot Option'' (7) (10)]"

definition sample_filter :: filter_params where
  "sample_filter =
     \<lparr>categorias = [Some ''Dessert''],
      subcategorias = [Some ''Cold Option'', Some ''Warm Option'', Some ''Hot Option''],
      preco_min = 5, preco_max = 10\<rparr>"

text \<open>
  A Result Set of three rows with one very large price, and the Filter Parameters that the
  widgets of tab 2 show for it before the user changes them: every category and subcategory,
  and the whole price range.
\<close>

definition big_menu :: dataframe where
  "big_menu =
    [sample_row ''Food Truck'' ''Main'' ''Hot Option'' 0 10000000000000000,
     sample_row ''Bottled Water'' ''Main'' ''Hot Option'' 0 1,
     sample_row ''Bottled Soda'' ''Main'' ''Hot Option'' 0 1]"

definition open_filter :: filter_params where
  "open_filter =
     \<lparr>categorias = [Some ''Main''], subcategorias = [Some ''Hot Option''],
      preco_min = 1, preco_max = 10000000000000000\<rparr>"

section \<open>Connection, query cache and the script\<close>

text \<open>
  The warehouse is outside the program. Its two entry points are parameters of the model:
  \<^verbatim>\<open>snowflake.connector.connect\<close>, \<^verbatim>\<open>pd.read_sql\<close>, and the \<^verbatim>\<open>__exit__\<close> of the connection that
  the \<^verbatim>\<open>with\<close> statement of line 44 calls. Each acts on a state \<open>'w\<close> of the outside world and
  either raises or returns. \<open>'h\<close> is the type of connection handles, \<open>'df\<close> of Result Sets.
\<close>

datatype exn = Exn string

text \<open>\<^verbatim>\<open>str(e)\<close>: the message of an exception.\<close>

definition str :: "exn \<Rightarrow> string" where
  "str e = (case e of Exn m \<Rightarrow> m)"

text \<open>\<^verbatim>\<open>st.secrets["snowflake"]\<close>, the seven entries read at lines 32 to 38.\<close>

record secrets =
  user :: string
  password :: string
  account :: string
  warehouse :: string
  database :: string
  schema :: string
  role :: string

record ('w, 'h, 'df) driver =
  connect :: "string \<Rightarrow> string \<Rightarrow> string \<Rightarrow> string \<Rightarrow> string \<Rightarrow> string \<Rightarrow> string
                \<Rightarrow> 'w \<Rightarrow> (exn + 'h) \<times> 'w"
  read_sql :: "string \<Rightarrow> 'h \<Rightarrow> 'w \<Rightarrow> (exn + 'df) \<times> 'w"
  conn_exit :: "'h \<Rightarrow> 'w \<Rightarrow> 'w"

text \<open>
  The state of the process: the outside world, the two caches, and two counters that the
  program does not have and that only record what happened: how many times the body of
  \<^verbatim>\<open>init_connection\<close> ran, and at which time which query was sent to the warehouse.
\<close>

record ('w, 'h, 'df) app_state =
  world :: 'w
  resource_cache :: "'h option"
  data_cache :: "string \<rightharpoonup> nat \<times> 'df"
  connects :: nat
  executions :: "(nat \<times> string) list"

text \<open>
  Modelled from the spec: the decorator \<^verbatim>\<open>st.cache_resource\<close> of line 28 belongs to the UI
  framework and is not part of the source. Section 4.1 of the specification: on the first
  call the value is computed, on every later call within the process lifetime the same value
  is returned. A body that raises stores nothing.
\<close>

definition cache_resource ::
  "(('w, 'h, 'df) app_state \<Rightarrow> (exn + 'h) \<times> ('w, 'h, 'df) app_state)
     \<Rightarrow> ('w, 'h, 'df) app_state \<Rightarrow> (exn + 'h) \<times> ('w, 'h, 'df) app_state" where
  "cache_resource f s =
     (case resource_cache s of
        Some h \<Rightarrow> (Inr h, s)
      | None \<Rightarrow>
          (case f s of
             (Inl e, s') \<Rightarrow> (Inl e, s')
           | (Inr h, s') \<Rightarrow> (Inr h, s'\<lparr>resource_cache := Some h\<rparr>)))"

text \<open>
  Modelled from the spec: the decorator \<^verbatim>\<open>st.cache_data(ttl=...)\<close> of line 41 belongs to the UI
  framework and is not part of the source. Section 4.2 of the specification: if a cached,
  non-expired value exists for that exact argument it is returned; otherwise the body runs
  and its result is stored under the argument with a fresh timestamp. Section 9: key to
  (value, timestamp), expiry check, lazy recomputation. \<open>now\<close> is the reading of the clock
  at the call, in seconds; an entry stored at \<open>stored\<close> is non-expired while
  \<open>now < stored + ttl\<close>. A body that raises stores nothing.
\<close>

definition cache_data ::
  "nat \<Rightarrow> (string \<Rightarrow> ('w, 'h, 'df) app_state \<Rightarrow> (exn + 'df) \<times> ('w, 'h, 'df) app_state)
     \<Rightarrow> nat \<Rightarrow> string \<Rightarrow> ('w, 'h, 'df) app_state \<Rightarrow> (exn + 'df) \<times> ('w, 'h, 'df) app_state" where
  "cache_data ttl f now key s =
     (let compute =
            (case f key s of
               (Inl e, s') \<Rightarrow> (Inl e, s')
             | (Inr v, s') \<Rightarrow> (Inr v, s'\<lparr>data_cache := (data_cache s')(key \<mapsto> (now, v))\<rparr>))
      in case data_cache s key of
           None \<Rightarrow> compute
         | Some (stored, v) \<Rightarrow> if now < stored + ttl then (Inr v, s) else compute)"

text \<open>Lines 29 to 39: the body of \<^verbatim>\<open>init_connection\<close>, one call of \<^verbatim>\<open>connect\<close> with the secrets.\<close>

definition init_connection_body ::
  "('w, 'h, 'df) driver \<Rightarrow> secrets \<Rightarrow> ('w, 'h, 'df) app_state
     \<Rightarrow> (exn + 'h) \<times> ('w, 'h, 'df) app_state" where
  "init_connection_body drv sec s =
     (case connect drv (user sec) (password sec) (account sec) (warehouse sec)
             (database sec) (schema sec) (role sec) (world s) of
        (r, w') \<Rightarrow> (r, s\<lparr>world := w', connects := Suc (connects s)\<rparr>))"

text \<open>Line 28: \<^verbatim>\<open>init_connection\<close> as the program calls it, under \<^verbatim>\<open>@st.cache_resource\<close>.\<close>

definition init_connection ::
  "('w, 'h, 'df) driver \<Rightarrow> secrets \<Rightarrow> ('w, 'h, 'df) app_state
     \<Rightarrow> (exn + 'h) \<times> ('w, 'h, 'df) app_state" where
  "init_connection drv sec = cache_resource (init_connection_body drv sec)"

text \<open>
  Lines 42 to 45: the body of \<^verbatim>\<open>run_query\<close>. The handle comes from \<^verbatim>\<open>init_connection\<close>; the
  query is sent with \<^verbatim>\<open>pd.read_sql\<close>; the \<^verbatim>\<open>with\<close> statement calls the handle's \<^verbatim>\<open>__exit__\<close>
  whether \<^verbatim>\<open>read_sql\<close> returned or raised.
\<close>

definition run_query_body ::
  "('w, 'h, 'df) driver \<Rightarrow> secrets \<Rightarrow> nat \<Rightarrow> string \<Rightarrow> ('w, 'h, 'df) app_state
     \<Rightarrow> (exn + 'df) \<times> ('w, 'h, 'df) app_state" where
  "run_query_body drv sec now query s =
     (case init_connection drv sec s of
        (Inl e, s1) \<Rightarrow> (Inl e, s1)
      | (Inr conn, s1) \<Rightarrow>
          (case read_sql drv query conn (world s1) of
             (r, w') \<Rightarrow>
               (r, s1\<lparr>world := conn_exit drv conn w',
                       executions := executions s1 @ [(now, query)]\<rparr>)))"

text \<open>Line 41: \<^verbatim>\<open>run_query\<close> as the program calls it, under \<^verbatim>\<open>@st.cache_data(ttl=600)\<close>.\<close>

definition run_query ::
  "('w, 'h, 'df) driver \<Rightarrow> secrets \<Rightarrow> nat \<Rightarrow> string \<Rightarrow> ('w, 'h, 'df) app_state
     \<Rightarrow> (exn + 'df) \<times> ('w, 'h, 'df) app_state" where
  "run_query drv sec now = cache_data 600 (run_query_body drv sec now) now"




subsection \<open>One run of the script\<close>

text \<open>The query of the dashboard, lines 125 to 135, with its line breaks and indentation.\<close>

definition menu_query :: string where
  "menu_query =
     CHR 0x0A #
     concat (map (\<lambda>l. l @ [CHR 0x0A])
       [''                SELECT '',
        ''                    MENU_ITEM_NAME,'',
        ''                    ITEM_CATEGORY,'',
        ''                    ITEM_SUBCATEGORY,'',
        ''                    COST_OF_GOODS_USD,'',
        ''                    SALE_PRICE_USD,'',
        ''                    (SALE_PRICE_USD - COST_OF_GOODS_USD) AS PROFIT,'',
        ''                    ROUND(((SALE_PRICE_USD - COST_OF_GOODS_USD) / SALE_PRICE_USD) * 100, 2) AS MARGIN_PERCENT'',
        ''                FROM MENU''])
     @ ''            ''"

text \<open>
  What a run shows, in the order of the script. One constructor stands for each stretch of
  rendering calls between two points where the run can end: \<open>Title\<close> for lines 51 and 52,
  \<open>SidebarHeader\<close> for line 59, \<open>ConnectionSuccess\<close> for line 64, \<open>ConnectionDetails\<close> for
  lines 66 to 73, \<open>ConnectionError\<close> for line 78, \<open>About\<close> for lines 81 to 100,
  \<open>DashboardHeader\<close> for line 121, \<open>Dashboard\<close> for lines 137 to 205, \<open>Explorer\<close> for lines
  212 to 278, \<open>QueryForm\<close> for lines 285 to 318, \<open>QueryResult\<close> for lines 325 to 338,
  \<open>QueryError\<close> for line 341, \<open>Code\<close> for line 342, \<open>Tutorial\<close> for lines 349 to 476 and
  \<open>Footer\<close> for lines 482 to 489.
  The rendering calls themselves are taken not to raise.
\<close>

datatype 'df element =
    Title | SidebarHeader | ConnectionSuccess | ConnectionDetails | ConnectionError string
  | About | DashboardHeader | Dashboard 'df | Explorer 'df | QueryForm | QueryResult 'df
  | QueryError | Code string | Tutorial | Footer

text \<open>
  How a run ends: at the last line, at \<^verbatim>\<open>st.stop()\<close>, or with an exception that no handler
  of the script catches.
\<close>

datatype status = Completed | Stopped | Uncaught exn

text \<open>
  What the user and the clock supply to one run: the time, the content of the text area of
  line 314, and whether the button of line 320 was pressed.
\<close>

record script_input =
  now :: nat
  query_text :: string
  execute :: bool

text \<open>Lines 284 to 342: the third tab, whose query (line 323) runs inside \<^verbatim>\<open>try\<close>.\<close>

definition tab3 ::
  "('w, 'h, 'df) driver \<Rightarrow> secrets \<Rightarrow> script_input \<Rightarrow> ('w, 'h, 'df) app_state
     \<Rightarrow> 'df element list \<times> ('w, 'h, 'df) app_state" where
  "tab3 drv sec inp s =
     (if execute inp then
        (case run_query drv sec (now inp) (query_text inp) s of
           (Inr resultado, s') \<Rightarrow> ([QueryForm, QueryResult resultado], s')
         | (Inl e, s') \<Rightarrow> ([QueryForm, QueryError, Code (str e)], s'))
      else ([QueryForm], s))"

text \<open>
  The script from line 51 to its end. The connection is made inside \<^verbatim>\<open>try\<close> (lines 62 to
  79), and its handler stops the run; the query of the dashboard (line 125) runs outside any
  \<^verbatim>\<open>try\<close>.
\<close>

definition run_script ::
  "('w, 'h, 'df) driver \<Rightarrow> secrets \<Rightarrow> script_input \<Rightarrow> ('w, 'h, 'df) app_state
     \<Rightarrow> ('df element list \<times> status) \<times> ('w, 'h, 'df) app_state" where
  "run_script drv sec inp s =
     (case init_connection drv sec s of
        (Inl e, s1) \<Rightarrow> (([Title, SidebarHeader, ConnectionError (str e)], Stopped), s1)
      | (Inr conn, s1) \<Rightarrow>
          (let sidebar = [Title, SidebarHeader, ConnectionSuccess, ConnectionDetails, About]
           in case run_query drv sec (now inp) menu_query s1 of
                (Inl e, s2) \<Rightarrow> ((sidebar @ [DashboardHeader], Uncaught e), s2)
              | (Inr df, s2) \<Rightarrow>
                  (case tab3 drv sec inp s2 of
                     (query_tab, s3) \<Rightarrow>
                       ((sidebar @ [DashboardHeader, Dashboard df, Explorer df] @ query_tab
                           @ [Tutorial, Footer], Completed), s3))))"

subsection \<open>Sample warehouses\<close>


definition denying_driver :: "string list \<Rightarrow> (nat, nat, nat list) driver" where
  "denying_driver denied =
     \<lparr>connect = (\<lambda>u p a wh d sc r w. (Inr 7, w)),
      read_sql = (\<lambda>q h w.
        if q \<in> set denied then (Inl (Exn ''SQL compilation error''), w)
        else (Inr [w], Suc w)),
      conn_exit = (\<lambda>h w. w)\<rparr>"

definition unreachable_driver :: "(nat, nat, nat list) driver" where
  "unreachable_driver =
     \<lparr>connect = (\<lambda>u p a wh d sc r w. (Inl (Exn ''Incorrect username or password''), w)),
      read_sql = (\<lambda>q h w. (Inr [w], Suc w)),
      conn_exit = (\<lambda>h w. w)\<rparr>"

definition stub_secrets :: secrets where
  "stub_secrets =
     \<lparr>user = ''u'', password = ''p'', account = ''a'', warehouse = ''wh'',
      database = ''db'', schema = ''sc'', role = ''r''\<rparr>"

definition fresh_state :: "(nat, nat, nat list) app_state" where
  "fresh_state =
     \<lparr>world = 0, resource_cache = None, data_cache = Map.empty, connects = 0,
      executions = []\<rparr>"


section \<open>Properties of the filter\<close>

lemma boolean_index_map:
  "boolean_index xs (map P xs) = filter P xs"
  by (induction xs) (simp_all add: boolean_index_def)

lemma mask_and_map:
  "mask_and (map P xs) (map Q xs) = map (\<lambda>x. P x \<and> Q x) xs"
  by (induction xs) (simp_all add: mask_and_def)

lemma filter_mask_map:
  "filter_mask df F = map (satisfies F) df"
proof -
  have "filter_mask df F =
      map (\<lambda>r. ((ITEM_CATEGORY r \<in> set (categorias F)
          \<and> ITEM_SUBCATEGORY r \<in> set (subcategorias F))
          \<and> (case SALE_PRICE_USD r of None \<Rightarrow> False | Some p \<Rightarrow> preco_min F \<le> p))
          \<and> (case SALE_PRICE_USD r of None \<Rightarrow> False | Some p \<Rightarrow> p \<le> preco_max F)) df"
    by (simp add: filter_mask_def column_def isin_def series_ge_def series_le_def
        mask_and_map comp_def)
  also have "\<dots> = map (satisfies F) df"
    by (rule map_cong)
       (auto simp: satisfies_def cond_category_def cond_subcategory_def cond_price_def
             split: option.splits)
  finally show ?thesis .
qed

lemma df_filtrado_filter:
  "df_filtrado df F = filter (satisfies F) df"
  by (simp add: df_filtrado_def filter_mask_map boolean_index_map)

subsection \<open>The sample evaluated\<close>

lemma sample_mask:
  "filter_mask sample_menu sample_filter =
     [False, True, False, True, True, True, True, False,
      False, False, False, False, False, False, False, False, False, False, False, False]"
  by (simp add: filter_mask_def column_def isin_def series_ge_def series_le_def mask_and_def
      sample_menu_def sample_row_def sample_filter_def)

lemma sample_filtered:
  "df_filtrado sample_menu sample_filter =
     [sample_row ''Mango Sticky Rice'' ''Dessert'' ''Warm Option'' (5/4) 5,
      sample_row ''Waffle Cone'' ''Dessert'' ''Cold Option'' (5/2) 6,
      sample_row ''Sugar Cone'' ''Dessert'' ''Cold Option'' (5/2) 6,
      sample_row ''Two Scoop Bowl'' ''Dessert'' ''Cold Option'' 3 7,
      sample_row ''Chocolate Lava Cake'' ''Dessert'' ''Warm Option'' (7/2) 10]"
  unfolding df_filtrado_def sample_mask
  by (simp add: boolean_index_def sample_menu_def)

text \<open>
  Claim C1. For every Result Set and every choice of Filter Parameters, the filtered subset
  is exactly the rows that satisfy the conjunction of the three conditions (category
  selected, subcategory selected, price within the range). Hence it has at most as many
  rows as the Result Set, every retained row satisfies all three conditions, a row is
  excluded by the mask only if it fails one of them, and every row satisfying all three
  occurs in the subset.
\<close>

theorem df_filtrado_is_conjunction:
  "df_filtrado df F =
      filter (\<lambda>r. cond_category F r \<and> cond_subcategory F r \<and> cond_price F r) df
   \<and> length (df_filtrado df F) \<le> length df
   \<and> (\<forall>r \<in> set (df_filtrado df F).
          cond_category F r \<and> cond_subcategory F r \<and> cond_price F r)
   \<and> (\<forall>i < length df. \<not> filter_mask df F ! i \<longrightarrow>
          \<not> (cond_category F (df ! i) \<and> cond_subcategory F (df ! i) \<and> cond_price F (df ! i)))
   \<and> (\<forall>i < length df.
          cond_category F (df ! i) \<and> cond_subcategory F (df ! i) \<and> cond_price F (df ! i)
          \<longrightarrow> filter_mask df F ! i \<and> df ! i \<in> set (df_filtrado df F))"
proof -
  have eq: "df_filtrado df F =
      filter (\<lambda>r. cond_category F r \<and> cond_subcategory F r \<and> cond_price F r) df"
    using df_filtrado_filter [of df F] by (simp add: satisfies_def [abs_def])
  have len: "length (df_filtrado df F) \<le> length df"
    by (simp add: df_filtrado_filter)
  have kept: "\<forall>r \<in> set (df_filtrado df F).
      cond_category F r \<and> cond_subcategory F r \<and> cond_price F r"
    by (simp add: df_filtrado_filter satisfies_def)
  have mask: "filter_mask df F ! i = satisfies F (df ! i)" if "i < length df" for i
    using that by (simp add: filter_mask_map)
  have excl: "\<forall>i < length df. \<not> filter_mask df F ! i \<longrightarrow>
      \<not> (cond_category F (df ! i) \<and> cond_subcategory F (df ! i) \<and> cond_price F (df ! i))"
    using mask by (simp add: satisfies_def)
  have incl: "\<forall>i < length df.
      cond_category F (df ! i) \<and> cond_subcategory F (df ! i) \<and> cond_price F (df ! i)
      \<longrightarrow> filter_mask df F ! i \<and> df ! i \<in> set (df_filtrado df F)"
    using mask by (simp add: df_filtrado_filter satisfies_def)
  from eq len kept excl incl show ?thesis by blast
qed

theorem df_filtrado_is_conjunction_witness:
  "length (df_filtrado sample_menu sample_filter) = 5
   \<and> length (df_filtrado sample_menu sample_filter) \<le> length sample_menu
   \<and> sample_menu ! 1 \<in> set (df_filtrado sample_menu sample_filter)
   \<and> cond_category sample_filter (sample_menu ! 1)
   \<and> cond_subcategory sample_filter (sample_menu ! 1)
   \<and> cond_price sample_filter (sample_menu ! 1)
   \<and> 0 < length sample_menu
   \<and> \<not> filter_mask sample_menu sample_filter ! 0
   \<and> \<not> (cond_category sample_filter (sample_menu ! 0)
        \<and> cond_subcategory sample_filter (sample_menu ! 0)
        \<and> cond_price sample_filter (sample_menu ! 0))"
proof -
  note T = df_filtrado_is_conjunction [of sample_menu sample_filter]
  have n: "0 < length sample_menu" by (simp add: sample_menu_def)
  have r1: "sample_menu ! 1 = sample_row ''Mango Sticky Rice'' ''Dessert'' ''Warm Option'' (5/4) 5"
    by (simp add: sample_menu_def)
  have m0: "\<not> filter_mask sample_menu sample_filter ! 0" by (simp add: sample_mask)
  have k: "sample_menu ! 1 \<in> set (df_filtrado sample_menu sample_filter)"
    using r1 by (simp add: sample_filtered)
  have l: "length (df_filtrado sample_menu sample_filter) = 5"
    by (simp add: sample_filtered)
  from T have le: "length (df_filtrado sample_menu sample_filter) \<le> length sample_menu"
    by blast
  from T k have c1: "cond_category sample_filter (sample_menu ! 1)
      \<and> cond_subcategory sample_filter (sample_menu ! 1)
      \<and> cond_price sample_filter (sample_menu ! 1)"
    by blast
  from T n m0 have c0: "\<not> (cond_category sample_filter (sample_menu ! 0)
      \<and> cond_subcategory sample_filter (sample_menu ! 0)
      \<and> cond_price sample_filter (sample_menu ! 0))"
    by blast
  from l le k c1 n m0 c0 show ?thesis by blast
qed


text \<open>
  Claim C8. The price condition is inclusive at both ends of the range: a row whose category
  and subcategory are selected and whose price equals the selected minimum or the selected
  maximum is retained. The slider returns its two values in order, minimum first.
\<close>

theorem price_range_inclusive:
  assumes "i < length df"
    and "cond_category F (df ! i)" and "cond_subcategory F (df ! i)"
    and "preco_min F \<le> preco_max F"
    and "SALE_PRICE_USD (df ! i) = Some (preco_min F)
         \<or> SALE_PRICE_USD (df ! i) = Some (preco_max F)"
  shows "filter_mask df F ! i \<and> df ! i \<in> set (df_filtrado df F)"
proof -
  from assms(4,5) have "cond_price F (df ! i)"
    by (auto simp: cond_price_def)
  with assms(2,3) have "satisfies F (df ! i)"
    by (simp add: satisfies_def)
  with assms(1) show ?thesis
    by (simp add: filter_mask_map df_filtrado_filter)
qed

theorem price_range_inclusive_witness:
  "SALE_PRICE_USD (sample_menu ! 1) = Some (preco_min sample_filter)
   \<and> filter_mask sample_menu sample_filter ! 1
   \<and> sample_menu ! 1 \<in> set (df_filtrado sample_menu sample_filter)
   \<and> SALE_PRICE_USD (sample_menu ! 6) = Some (preco_max sample_filter)
   \<and> filter_mask sample_menu sample_filter ! 6
   \<and> sample_menu ! 6 \<in> set (df_filtrado sample_menu sample_filter)"
proof -
  have n: "1 < length sample_menu" "6 < length sample_menu"
    by (simp_all add: sample_menu_def)
  have ord: "preco_min sample_filter \<le> preco_max sample_filter"
    by (simp add: sample_filter_def)
  have r1: "sample_menu ! 1 = sample_row ''Mango Sticky Rice'' ''Dessert'' ''Warm Option'' (5/4) 5"
    and r6: "sample_menu ! 6 = sample_row ''Chocolate Lava Cake'' ''Dessert'' ''Warm Option'' (7/2) 10"
    by (simp_all add: sample_menu_def)
  have c1: "cond_category sample_filter (sample_menu ! 1)"
      "cond_subcategory sample_filter (sample_menu ! 1)"
    unfolding r1
    by (simp_all add: cond_category_def cond_subcategory_def sample_row_def sample_filter_def)
  have c6: "cond_category sample_filter (sample_menu ! 6)"
      "cond_subcategory sample_filter (sample_menu ! 6)"
    unfolding r6
    by (simp_all add: cond_category_def cond_subcategory_def sample_row_def sample_filter_def)
  have p1: "SALE_PRICE_USD (sample_menu ! 1) = Some (preco_min sample_filter)"
    unfolding r1 by (simp add: sample_row_def sample_filter_def)
  have p6: "SALE_PRICE_USD (sample_menu ! 6) = Some (preco_max sample_filter)"
    unfolding r6 by (simp add: sample_row_def sample_filter_def)
  from price_range_inclusive [of 1 sample_menu sample_filter] n(1) c1 ord p1
  have k1: "filter_mask sample_menu sample_filter ! 1
      \<and> sample_menu ! 1 \<in> set (df_filtrado sample_menu sample_filter)"
    by blast
  from price_range_inclusive [of 6 sample_menu sample_filter] n(2) c6 ord p6
  have k6: "filter_mask sample_menu sample_filter ! 6
      \<and> sample_menu ! 6 \<in> set (df_filtrado sample_menu sample_filter)"
    by blast
  from p1 k1 p6 k6 show ?thesis by blast
qed

text \<open>
  Claim C9. Filtering keeps the order of the rows: the filtered subset is a subsequence of
  the Result Set, namely its rows at the positions that satisfy the three conditions, taken
  in increasing position.
\<close>

theorem df_filtrado_preserves_order:
  "subseq (df_filtrado df F) df
   \<and> df_filtrado df F = nths df {i. i < length df \<and> satisfies F (df ! i)}"
proof
  show "subseq (df_filtrado df F) df"
    by (simp add: df_filtrado_filter)
  show "df_filtrado df F = nths df {i. i < length df \<and> satisfies F (df ! i)}"
    by (simp add: df_filtrado_filter filter_eq_nths)
qed

text \<open>
  Claim C10. The filter is idempotent: filtering the filtered subset again with the same
  parameters changes nothing.
\<close>

theorem df_filtrado_idempotent:
  "df_filtrado (df_filtrado df F) F = df_filtrado df F"
  by (simp add: df_filtrado_filter)

section \<open>Properties of the aggregates\<close>

declare accumulate8.simps [simp del]
declare pairwise_sum.simps [simp del]

lemma sum_list_filter_positions:
  fixes f :: "'a \<Rightarrow> rat"
  shows "sum_list (map f (filter P xs)) = (\<Sum>i | i < length xs \<and> P (xs ! i). f (xs ! i))"
proof (induction xs rule: rev_induct)
  case Nil
  then show ?case by simp
next
  case (snoc x xs)
  let ?A = "{i. i < length xs \<and> P (xs ! i)}"
  have fin: "finite ?A" by simp
  have notin: "length xs \<notin> ?A" by simp
  have same: "(\<Sum>i\<in>?A. f ((xs @ [x]) ! i)) = (\<Sum>i\<in>?A. f (xs ! i))"
    by (rule sum.cong) (simp_all add: nth_append)
  have split: "{i. i < length (xs @ [x]) \<and> P ((xs @ [x]) ! i)} =
      (if P x then insert (length xs) ?A else ?A)"
    by (auto simp: nth_append less_Suc_eq)
  show ?case
  proof (cases "P x")
    case True
    with split have "{i. i < length (xs @ [x]) \<and> P ((xs @ [x]) ! i)} = insert (length xs) ?A"
      by simp
    then have "(\<Sum>i | i < length (xs @ [x]) \<and> P ((xs @ [x]) ! i). f ((xs @ [x]) ! i))
        = f x + (\<Sum>i\<in>?A. f ((xs @ [x]) ! i))"
      using fin notin by simp
    with True snoc same show ?thesis by simp
  next
    case False
    with split have "{i. i < length (xs @ [x]) \<and> P ((xs @ [x]) ! i)} = ?A"
      by simp
    with False snoc same show ?thesis by simp
  qed
qed

lemma round_half_even_of_int [simp]: "round_half_even (of_int z) = z"
  by (simp add: round_half_even_def)

lemma exponent_bounds:
  assumes "q \<noteq> 0"
  shows "2 powi exponent q \<le> \<bar>q\<bar>" and "\<bar>q\<bar> < 2 powi (exponent q + 1)"
proof -
  have "2 powi exponent q \<le> \<bar>q\<bar> \<and> \<bar>q\<bar> < 2 powi (exponent q + 1)"
  proof (cases "1 \<le> \<bar>q\<bar>")
    case True
    define n where "n = \<lfloor>\<bar>q\<bar>\<rfloor>"
    have n1: "1 \<le> n" using True by (simp add: n_def le_floor_iff)
    then have n0: "0 < n" by simp
    from bitlen_bounds [OF n0]
    have lo: "2 ^ nat (bitlen n - 1) \<le> n" and hi: "n < 2 ^ nat (bitlen n)" by simp_all
    have bl: "1 \<le> bitlen n" using n0 by (simp add: bitlen_def floorlog_def)
    have e: "exponent q = bitlen n - 1" using True by (simp add: exponent_def n_def)
    have "(2::rat) powi (bitlen n - 1) = 2 ^ nat (bitlen n - 1)"
      using bl by (simp add: power_int_def)
    also have "\<dots> = of_int (2 ^ nat (bitlen n - 1))" by simp
    also have "\<dots> \<le> of_int n" using lo by (simp only: of_int_le_iff)
    also have "\<dots> \<le> \<bar>q\<bar>" by (simp add: n_def)
    finally have A: "2 powi exponent q \<le> \<bar>q\<bar>" by (simp add: e)
    have "n + 1 \<le> 2 ^ nat (bitlen n)" using hi by simp
    then have "(of_int (n + 1) :: rat) \<le> of_int (2 ^ nat (bitlen n))"
      by (simp only: of_int_le_iff)
    moreover have "\<bar>q\<bar> < of_int (n + 1)"
      using floor_correct [of "\<bar>q\<bar>"] by (simp add: n_def)
    ultimately have "\<bar>q\<bar> < of_int (2 ^ nat (bitlen n))" by simp
    also have "\<dots> = 2 powi (bitlen n)" using bl by (simp add: power_int_def)
    finally have B: "\<bar>q\<bar> < 2 powi (exponent q + 1)" by (simp add: e)
    from A B show ?thesis by simp
  next
    case False
    define t where "t = 1 / \<bar>q\<bar>"
    have q0: "0 < \<bar>q\<bar>" using assms by simp
    have t1: "1 < t" using False q0 by (simp add: t_def)
    define N where "N = \<lceil>t\<rceil> - 1"
    have "2 \<le> \<lceil>t\<rceil>" using t1 by (simp add: le_ceiling_iff)
    then have N0: "0 < N" by (simp add: N_def)
    from bitlen_bounds [OF N0]
    have lo: "2 ^ nat (bitlen N - 1) \<le> N" and hi: "N < 2 ^ nat (bitlen N)" by simp_all
    have bl: "1 \<le> bitlen N" using N0 by (simp add: bitlen_def floorlog_def)
    have e: "exponent q = - bitlen N" using False by (simp add: exponent_def N_def t_def)
    have "t \<le> of_int \<lceil>t\<rceil>" by simp
    also have "\<dots> = of_int (N + 1)" by (simp add: N_def)
    also have "\<dots> \<le> of_int (2 ^ nat (bitlen N))" using hi by (simp only: of_int_le_iff)
    also have "\<dots> = 2 ^ nat (bitlen N)" by simp
    finally have tle: "t \<le> 2 ^ nat (bitlen N)" .
    have Nt: "(of_int N :: rat) < t" using ceiling_correct [of t] by (simp add: N_def)
    have "(of_int (2 ^ nat (bitlen N - 1)) :: rat) \<le> of_int N"
      using lo by (simp only: of_int_le_iff)
    then have "(2::rat) ^ nat (bitlen N - 1) \<le> of_int N" by simp
    with Nt have tgt: "2 ^ nat (bitlen N - 1) < t" by linarith
    have A: "2 powi exponent q \<le> \<bar>q\<bar>"
    proof -
      have "(2::rat) powi exponent q = 1 / 2 ^ nat (bitlen N)"
        using bl by (simp add: e power_int_def inverse_eq_divide power_one_over)
      also have "\<dots> \<le> 1 / t" using tle t1 by (simp add: frac_le)
      also have "\<dots> = \<bar>q\<bar>" by (simp add: t_def)
      finally show ?thesis .
    qed
    have B: "\<bar>q\<bar> < 2 powi (exponent q + 1)"
    proof -
      have "\<bar>q\<bar> = 1 / t" by (simp add: t_def)
      also have "\<dots> < 1 / (2::rat) ^ nat (bitlen N - 1)" using tgt by (simp add: frac_less2)
      also have "\<dots> = (2::rat) powi (exponent q + 1)"
      proof (cases "bitlen N = 1")
        case True then show ?thesis by (simp add: e)
      next
        case False
        then have "1 - bitlen N < 0" using bl by simp
        then show ?thesis
          using bl by (simp add: e power_int_def inverse_eq_divide power_one_over nat_diff_distrib)
      qed
      finally show ?thesis .
    qed
    from A B show ?thesis by simp
  qed
  then show "2 powi exponent q \<le> \<bar>q\<bar>" and "\<bar>q\<bar> < 2 powi (exponent q + 1)" by simp_all
qed


lemma exponent_unique:
  assumes "q \<noteq> 0" and "2 powi e \<le> \<bar>q\<bar>" and "\<bar>q\<bar> < 2 powi (e + 1)"
  shows "exponent q = e"
proof (rule ccontr)
  assume ne: "exponent q \<noteq> e"
  note b = exponent_bounds [OF assms(1)]
  show False
  proof (cases "exponent q < e")
    case True
    then have "(2::rat) powi (exponent q + 1) \<le> 2 powi e"
      by (intro power_int_increasing) simp_all
    with b(2) assms(2) show False by linarith
  next
    case False
    with ne have "e + 1 \<le> exponent q" by simp
    then have "(2::rat) powi (e + 1) \<le> 2 powi exponent q"
      by (intro power_int_increasing) simp_all
    with b(1) assms(3) show False by linarith
  qed
qed

lemma round_f64_exact:
  assumes dy: "q * 2 ^ k \<in> \<int>" and small: "\<bar>q\<bar> * 2 ^ k < 2 ^ 53" and k: "k \<le> 1074"
  shows "round_f64 q = Fin q"
proof (cases "q = 0")
  case True
  then show ?thesis by (simp add: round_f64_def)
next
  case False
  from dy obtain m :: int where m: "q * 2 ^ k = of_int m" by (auto elim: Ints_cases)
  define e where "e = exponent q"
  define t where "t = max e (- 1022) - 52"
  have lo: "2 powi e \<le> \<bar>q\<bar>" using exponent_bounds(1) [OF False] by (simp add: e_def)
  have "\<bar>q\<bar> < 2 ^ 53 / 2 ^ k" using small by (simp add: pos_less_divide_eq)
  also have "\<dots> = (2::rat) powi (53 - int k)"
    by (simp add: power_int_diff)
  finally have hi: "\<bar>q\<bar> < 2 powi (53 - int k)" .
  have e_le: "e \<le> 52 - int k"
  proof (rule ccontr)
    assume "\<not> e \<le> 52 - int k"
    then have "53 - int k \<le> e" by simp
    then have "(2::rat) powi (53 - int k) \<le> 2 powi e"
      by (intro power_int_increasing) simp_all
    with lo hi show False by linarith
  qed
  have t_le: "t \<le> - int k" using e_le k by (simp add: t_def)
  define j where "j = nat (- int k - t)"
  have j: "int j = - int k - t" using t_le by (simp add: j_def)
  have q: "q = of_int m / 2 ^ k" using m by (simp add: field_simps)
  have ulp: "(2::rat) powi t = 1 / (2 ^ k * 2 ^ j)"
  proof -
    have "t = - int (k + j)" using j by simp
    then have "(2::rat) powi t = 2 powi (- int (k + j))" by simp
    also have "\<dots> = 1 / 2 ^ (k + j)"
      by (simp only: power_int_minus power_int_of_nat inverse_eq_divide)
    finally show ?thesis by (simp add: power_add)
  qed
  have quo: "q / 2 powi t = of_int (m * 2 ^ j)"
    by (simp add: q ulp)
  have again: "of_int (m * 2 ^ j) * 2 powi t = q"
    by (simp add: q ulp)
  have "\<bar>q\<bar> * 1 \<le> \<bar>q\<bar> * 2 ^ k" by (intro mult_left_mono) simp_all
  with small have qs: "\<bar>q\<bar> < 2 ^ 53" by simp
  have "(2::rat) ^ 53 \<le> 2 ^ 1024" by (intro power_increasing) simp_all
  with qs have big: "\<bar>q\<bar> < 2 ^ 1024" by linarith
  then have nov: "\<not> 2 ^ 1024 \<le> q" "\<not> q \<le> - (2 ^ 1024)" by linarith+
  have "round_f64 q =
     (let v = of_int (round_half_even (q / 2 powi t)) * 2 powi t
      in if 2 ^ 1024 \<le> v then PInf else if v \<le> - (2 ^ 1024) then NInf else Fin v)"
    using False by (simp add: round_f64_def Let_def t_def e_def)
  also have "\<dots> = Fin q"
    unfolding quo round_half_even_of_int Let_def again using nov by simp
  finally show ?thesis .
qed

lemma round_f64_unit:
  assumes "q \<noteq> 0" and "2 powi e \<le> \<bar>q\<bar>" and "\<bar>q\<bar> < 2 powi (e + 1)"
  shows "round_f64 q =
     (let ulp = 2 powi (max e (- 1022) - 52);
          v = of_int (round_half_even (q / ulp)) * ulp
      in if 2 ^ 1024 \<le> v then PInf else if v \<le> - (2 ^ 1024) then NInf else Fin v)"
  using assms(1) exponent_unique [OF assms] by (simp add: round_f64_def)

lemma round_sample: "round_f64 10000000000000001 = Fin 10000000000000000"
proof -
  have "round_f64 10000000000000001 =
     (let ulp = 2 powi (max 53 (- 1022) - 52);
          v = of_int (round_half_even (10000000000000001 / ulp)) * ulp
      in if 2 ^ 1024 \<le> v then PInf else if v \<le> - (2 ^ 1024) then NInf else Fin v)"
    by (rule round_f64_unit) simp_all
  also have "\<dots> = Fin 10000000000000000"
  proof -
    have fl: "\<lfloor>(10000000000000001::rat) / 2\<rfloor> = 5000000000000000"
      by (rule floor_unique) simp_all
    show ?thesis by (simp add: round_half_even_def Let_def fl)
  qed
  finally show ?thesis .
qed


lemma carries_Fin: "q * 2 ^ k \<in> \<int> \<Longrightarrow> carries k \<bar>q\<bar> (Fin q)"
  by (simp add: carries_def)

lemma carries_zero: "carries k 0 (Fin 0)"
  by (simp add: carries_def)

lemma carries_mono: "carries k m x \<Longrightarrow> m \<le> m' \<Longrightarrow> carries k m' x"
  by (auto simp: carries_def)

lemma carries_nonneg: "carries k m x \<Longrightarrow> 0 \<le> m"
  by (auto simp: carries_def)

lemma carries_val: "carries k m x \<Longrightarrow> x = Fin (val x)"
  by (auto simp: carries_def val_def)

lemma fadd_carries:
  assumes "carries k m x" and "carries k n y" and "m + n < 2 ^ 53 / 2 ^ k" and "k \<le> 1074"
  shows "carries k (m + n) (fadd x y) \<and> val (fadd x y) = val x + val y"
proof -
  from assms(1) obtain a where a: "x = Fin a" "a * 2 ^ k \<in> \<int>" "\<bar>a\<bar> \<le> m"
    by (auto simp: carries_def)
  from assms(2) obtain b where b: "y = Fin b" "b * 2 ^ k \<in> \<int>" "\<bar>b\<bar> \<le> n"
    by (auto simp: carries_def)
  have dy: "(a + b) * 2 ^ k \<in> \<int>" using a(2) b(2) by (simp add: distrib_right)
  have le: "\<bar>a + b\<bar> \<le> m + n" using a(3) b(3) by linarith
  with assms(3) have "\<bar>a + b\<bar> < 2 ^ 53 / 2 ^ k" by linarith
  then have "\<bar>a + b\<bar> * 2 ^ k < 2 ^ 53" by (simp add: pos_less_divide_eq)
  from round_f64_exact [OF dy this assms(4)]
  have "fadd x y = Fin (a + b)" by (simp add: a(1) b(1))
  with dy le show ?thesis by (simp add: carries_def val_def a(1) b(1))
qed

lemma foldl_carries:
  assumes "k \<le> 1074"
  shows "carries k m acc \<Longrightarrow> \<forall>q\<in>set qs. q * 2 ^ k \<in> \<int>
      \<Longrightarrow> m + (\<Sum>q\<leftarrow>qs. \<bar>q\<bar>) < 2 ^ 53 / 2 ^ k
      \<Longrightarrow> carries k (m + (\<Sum>q\<leftarrow>qs. \<bar>q\<bar>)) (foldl fadd acc (map Fin qs))
          \<and> val (foldl fadd acc (map Fin qs)) = val acc + sum_list qs"
proof (induction qs arbitrary: m acc)
  case Nil
  then show ?case by simp
next
  case (Cons q qs)
  have nn: "0 \<le> (\<Sum>q\<leftarrow>qs. \<bar>q\<bar>)" by (rule sum_list_nonneg) auto
  have q: "carries k \<bar>q\<bar> (Fin q)" using Cons.prems(2) by (simp add: carries_Fin)
  have "m + \<bar>q\<bar> < 2 ^ 53 / 2 ^ k" using Cons.prems(3) nn by simp
  from fadd_carries [OF Cons.prems(1) q this assms]
  have 1: "carries k (m + \<bar>q\<bar>) (fadd acc (Fin q))"
    and 2: "val (fadd acc (Fin q)) = val acc + q" by (simp_all add: val_def)
  have 3: "\<forall>q\<in>set qs. q * 2 ^ k \<in> \<int>" using Cons.prems(2) by simp
  have 4: "m + \<bar>q\<bar> + (\<Sum>q\<leftarrow>qs. \<bar>q\<bar>) < 2 ^ 53 / 2 ^ k" using Cons.prems(3) by simp
  from Cons.IH [OF 1 3 4] 2 show ?case by (simp add: add.assoc)
qed

lemma carries_sum_nonneg: "list_all2 (carries k) ms r \<Longrightarrow> 0 \<le> sum_list ms"
  by (induction rule: list_all2_induct) (auto dest: carries_nonneg)

lemma map2_carries:
  assumes "k \<le> 1074"
  shows "length ms = length r \<Longrightarrow> length r = length c
      \<Longrightarrow> list_all2 (carries k) ms r \<Longrightarrow> \<forall>q\<in>set c. q * 2 ^ k \<in> \<int>
      \<Longrightarrow> sum_list ms + (\<Sum>q\<leftarrow>c. \<bar>q\<bar>) < 2 ^ 53 / 2 ^ k
      \<Longrightarrow> list_all2 (carries k) (map2 (+) ms (map abs c)) (map2 fadd r (map Fin c))
          \<and> sum_list (map2 (+) ms (map abs c)) = sum_list ms + (\<Sum>q\<leftarrow>c. \<bar>q\<bar>)
          \<and> sum_list (map val (map2 fadd r (map Fin c))) = sum_list (map val r) + sum_list c"
proof (induction ms r c rule: list_induct3)
  case Nil
  then show ?case by simp
next
  case (Cons m ms x r q c)
  have nn: "0 \<le> (\<Sum>q\<leftarrow>c. \<bar>q\<bar>)" by (rule sum_list_nonneg) auto
  have x: "carries k m x" and rest: "list_all2 (carries k) ms r" using Cons.prems(1) by simp_all
  have nm: "0 \<le> sum_list ms" using rest by (rule carries_sum_nonneg)
  have q: "carries k \<bar>q\<bar> (Fin q)" using Cons.prems(2) by (simp add: carries_Fin)
  have "m + \<bar>q\<bar> < 2 ^ 53 / 2 ^ k" using Cons.prems(3) nn nm by simp
  from fadd_carries [OF x q this assms]
  have 1: "carries k (m + \<bar>q\<bar>) (fadd x (Fin q))"
    and 2: "val (fadd x (Fin q)) = val x + q" by (simp_all add: val_def)
  have 3: "\<forall>q\<in>set c. q * 2 ^ k \<in> \<int>" using Cons.prems(2) by simp
  have mx: "0 \<le> m" using x by (rule carries_nonneg)
  have 4: "sum_list ms + (\<Sum>q\<leftarrow>c. \<bar>q\<bar>) < 2 ^ 53 / 2 ^ k" using Cons.prems(3) mx by simp
  from Cons.IH [OF rest 3 4] 1 2 show ?case by simp
qed


lemma accumulate8_carries:
  assumes "k \<le> 1074"
  shows "length r = 8 \<Longrightarrow> list_all2 (carries k) ms r \<Longrightarrow> \<forall>q\<in>set qs. q * 2 ^ k \<in> \<int>
      \<Longrightarrow> sum_list ms + (\<Sum>q\<leftarrow>qs. \<bar>q\<bar>) < 2 ^ 53 / 2 ^ k
      \<Longrightarrow> \<exists>ms' r' qs'. accumulate8 r (map Fin qs) = (r', map Fin qs')
            \<and> length r' = 8 \<and> list_all2 (carries k) ms' r'
            \<and> (\<forall>q\<in>set qs'. q * 2 ^ k \<in> \<int>)
            \<and> sum_list ms' + (\<Sum>q\<leftarrow>qs'. \<bar>q\<bar>) = sum_list ms + (\<Sum>q\<leftarrow>qs. \<bar>q\<bar>)
            \<and> sum_list (map val r') + sum_list qs' = sum_list (map val r) + sum_list qs"
proof (induction "length qs" arbitrary: r ms qs rule: less_induct)
  case less
  show ?case
  proof (cases "length qs < 8")
    case True
    then have "accumulate8 r (map Fin qs) = (r, map Fin qs)"
      by (simp add: accumulate8.simps [of r "map Fin qs"])
    with less.prems show ?thesis by blast
  next
    case False
    define c where "c = take 8 qs"
    define qs2 where "qs2 = drop 8 qs"
    have qs: "qs = c @ qs2" by (simp add: c_def qs2_def)
    have lc: "length c = 8" using False by (simp add: c_def)
    have lms: "length ms = length r" using less.prems(2) by (rule list_all2_lengthD)
    have lrc: "length r = length c" using less.prems(1) lc by simp
    have dc: "\<forall>q\<in>set c. q * 2 ^ k \<in> \<int>" and d2: "\<forall>q\<in>set qs2. q * 2 ^ k \<in> \<int>"
      using less.prems(3) by (auto simp: qs)
    have n2: "0 \<le> (\<Sum>q\<leftarrow>qs2. \<bar>q\<bar>)" by (rule sum_list_nonneg) auto
    have bc: "sum_list ms + (\<Sum>q\<leftarrow>c. \<bar>q\<bar>) < 2 ^ 53 / 2 ^ k"
      using less.prems(4) n2 by (simp add: qs)
    define ms1 where "ms1 = map2 (+) ms (map abs c)"
    define r1 where "r1 = map2 fadd r (map Fin c)"
    from map2_carries [OF assms lms lrc less.prems(2) dc bc]
    have 1: "list_all2 (carries k) ms1 r1"
      and 2: "sum_list ms1 = sum_list ms + (\<Sum>q\<leftarrow>c. \<bar>q\<bar>)"
      and 3: "sum_list (map val r1) = sum_list (map val r) + sum_list c"
      by (simp_all add: ms1_def r1_def)
    have l1: "length r1 = 8" using less.prems(1) lc by (simp add: r1_def)
    have b1: "sum_list ms1 + (\<Sum>q\<leftarrow>qs2. \<bar>q\<bar>) < 2 ^ 53 / 2 ^ k"
      using less.prems(4) 2 by (simp add: qs)
    have shorter: "length qs2 < length qs" using False by (simp add: qs2_def)
    from less.hyps [OF shorter l1 1 d2 b1]
    obtain ms' r' qs' where R: "accumulate8 r1 (map Fin qs2) = (r', map Fin qs')"
      "length r' = 8" "list_all2 (carries k) ms' r'" "\<forall>q\<in>set qs'. q * 2 ^ k \<in> \<int>"
      "sum_list ms' + (\<Sum>q\<leftarrow>qs'. \<bar>q\<bar>) = sum_list ms1 + (\<Sum>q\<leftarrow>qs2. \<bar>q\<bar>)"
      "sum_list (map val r') + sum_list qs' = sum_list (map val r1) + sum_list qs2"
      by blast
    have "accumulate8 r (map Fin qs) = accumulate8 r1 (map Fin qs2)"
      using False
      by (simp add: accumulate8.simps [of r "map Fin qs"] r1_def c_def qs2_def take_map drop_map)
    with R have A: "accumulate8 r (map Fin qs) = (r', map Fin qs')" by simp
    have B: "sum_list ms' + (\<Sum>q\<leftarrow>qs'. \<bar>q\<bar>) = sum_list ms + (\<Sum>q\<leftarrow>qs. \<bar>q\<bar>)"
      using R(5) 2 by (simp add: qs)
    have C: "sum_list (map val r') + sum_list qs' = sum_list (map val r) + sum_list qs"
      using R(6) 3 by (simp add: qs)
    from A R(2,3,4) B C show ?thesis by blast
  qed
qed

lemma list8:
  assumes "length xs = 8"
  obtains a b c d e f g h where "xs = [a, b, c, d, e, f, g, h]"
  using assms by (auto simp: numeral_eq_Suc length_Suc_conv)

lemma tree8_carries:
  assumes "k \<le> 1074" and "length r = 8" and "list_all2 (carries k) ms r"
    and "sum_list ms < 2 ^ 53 / 2 ^ k"
  shows "carries k (sum_list ms) (tree8 r) \<and> val (tree8 r) = sum_list (map val r)"
proof -
  from assms(2) obtain r0 r1 r2 r3 r4 r5 r6 r7 where r: "r = [r0, r1, r2, r3, r4, r5, r6, r7]"
    by (rule list8)
  have "length ms = 8" using assms(2,3) by (simp add: list_all2_lengthD)
  then obtain m0 m1 m2 m3 m4 m5 m6 m7 where ms: "ms = [m0, m1, m2, m3, m4, m5, m6, m7]"
    by (rule list8)
  from assms(3) have c: "carries k m0 r0" "carries k m1 r1" "carries k m2 r2" "carries k m3 r3"
    "carries k m4 r4" "carries k m5 r5" "carries k m6 r6" "carries k m7 r7"
    by (simp_all add: r ms)
  note n = c [THEN carries_nonneg]
  have b: "m0 + m1 + m2 + m3 + m4 + m5 + m6 + m7 < 2 ^ 53 / 2 ^ k"
    using assms(4) by (simp add: ms add.assoc)
  have s01: "carries k (m0 + m1) (fadd r0 r1) \<and> val (fadd r0 r1) = val r0 + val r1"
    using n b by (intro fadd_carries [OF c(1) c(2) _ assms(1)]) linarith
  have s23: "carries k (m2 + m3) (fadd r2 r3) \<and> val (fadd r2 r3) = val r2 + val r3"
    using n b by (intro fadd_carries [OF c(3) c(4) _ assms(1)]) linarith
  have s45: "carries k (m4 + m5) (fadd r4 r5) \<and> val (fadd r4 r5) = val r4 + val r5"
    using n b by (intro fadd_carries [OF c(5) c(6) _ assms(1)]) linarith
  have s67: "carries k (m6 + m7) (fadd r6 r7) \<and> val (fadd r6 r7) = val r6 + val r7"
    using n b by (intro fadd_carries [OF c(7) c(8) _ assms(1)]) linarith
  have s03: "carries k ((m0 + m1) + (m2 + m3)) (fadd (fadd r0 r1) (fadd r2 r3))
      \<and> val (fadd (fadd r0 r1) (fadd r2 r3)) = val (fadd r0 r1) + val (fadd r2 r3)"
    using n b s01 s23 by (intro fadd_carries [OF _ _ _ assms(1)]) (simp, simp, linarith)
  have s47: "carries k ((m4 + m5) + (m6 + m7)) (fadd (fadd r4 r5) (fadd r6 r7))
      \<and> val (fadd (fadd r4 r5) (fadd r6 r7)) = val (fadd r4 r5) + val (fadd r6 r7)"
    using n b s45 s67 by (intro fadd_carries [OF _ _ _ assms(1)]) (simp, simp, linarith)
  have t: "tree8 r = fadd (fadd (fadd r0 r1) (fadd r2 r3)) (fadd (fadd r4 r5) (fadd r6 r7))"
    by (simp add: tree8_def r)
  have s07: "carries k (((m0 + m1) + (m2 + m3)) + ((m4 + m5) + (m6 + m7))) (tree8 r)
      \<and> val (tree8 r) = val (fadd (fadd r0 r1) (fadd r2 r3)) + val (fadd (fadd r4 r5) (fadd r6 r7))"
    unfolding t using n b s03 s47
    by (intro fadd_carries [OF _ _ _ assms(1)]) (simp, simp, linarith)
  have eq: "((m0 + m1) + (m2 + m3)) + ((m4 + m5) + (m6 + m7)) = sum_list ms"
    by (simp add: ms)
  from s07 s03 s47 s01 s23 s45 s67 show ?thesis
    unfolding eq [symmetric] by (simp add: r)
qed


lemma pairwise_carries:
  assumes "k \<le> 1074"
  shows "\<forall>q\<in>set qs. q * 2 ^ k \<in> \<int> \<Longrightarrow> (\<Sum>q\<leftarrow>qs. \<bar>q\<bar>) < 2 ^ 53 / 2 ^ k
      \<Longrightarrow> carries k (\<Sum>q\<leftarrow>qs. \<bar>q\<bar>) (pairwise_sum (map Fin qs))
          \<and> val (pairwise_sum (map Fin qs)) = sum_list qs"
proof (induction "length qs" arbitrary: qs rule: less_induct)
  case less
  consider (small) "length qs < 8" | (block) "8 \<le> length qs" "length qs \<le> 128"
    | (split) "128 < length qs" by linarith
  then show ?case
  proof cases
    case small
    then have "pairwise_sum (map Fin qs) = foldl fadd (Fin 0) (map Fin qs)"
      by (simp add: pairwise_sum.simps [of "map Fin qs"])
    moreover have "0 + (\<Sum>q\<leftarrow>qs. \<bar>q\<bar>) < 2 ^ 53 / 2 ^ k" using less.prems(2) by simp
    from foldl_carries [OF assms carries_zero less.prems(1) this]
    have "carries k (\<Sum>q\<leftarrow>qs. \<bar>q\<bar>) (foldl fadd (Fin 0) (map Fin qs))
        \<and> val (foldl fadd (Fin 0) (map Fin qs)) = sum_list qs"
      by (simp add: val_def)
    ultimately show ?thesis by simp
  next
    case block
    define c where "c = take 8 qs"
    define qs2 where "qs2 = drop 8 qs"
    have qs: "qs = c @ qs2" by (simp add: c_def qs2_def)
    have lc: "length (map Fin c) = 8" using block(1) by (simp add: c_def)
    have dc: "\<forall>q\<in>set c. q * 2 ^ k \<in> \<int>" and d2: "\<forall>q\<in>set qs2. q * 2 ^ k \<in> \<int>"
      using less.prems(1) by (auto simp: qs)
    have c0: "list_all2 (carries k) (map abs c) (map Fin c)"
      using dc by (simp add: list_all2_map1 list_all2_map2 list_all2_same carries_Fin)
    have b0: "sum_list (map abs c) + (\<Sum>q\<leftarrow>qs2. \<bar>q\<bar>) < 2 ^ 53 / 2 ^ k"
      using less.prems(2) by (simp add: qs)
    from accumulate8_carries [OF assms lc c0 d2 b0]
    obtain ms' r' qs' where R: "accumulate8 (map Fin c) (map Fin qs2) = (r', map Fin qs')"
      "length r' = 8" "list_all2 (carries k) ms' r'" "\<forall>q\<in>set qs'. q * 2 ^ k \<in> \<int>"
      "sum_list ms' + (\<Sum>q\<leftarrow>qs'. \<bar>q\<bar>) = sum_list (map abs c) + (\<Sum>q\<leftarrow>qs2. \<bar>q\<bar>)"
      "sum_list (map val r') + sum_list qs' = sum_list (map val (map Fin c)) + sum_list qs2"
      by blast
    have n': "0 \<le> (\<Sum>q\<leftarrow>qs'. \<bar>q\<bar>)" by (rule sum_list_nonneg) auto
    have total: "sum_list ms' + (\<Sum>q\<leftarrow>qs'. \<bar>q\<bar>) = (\<Sum>q\<leftarrow>qs. \<bar>q\<bar>)"
      using R(5) by (simp add: qs)
    have bt: "sum_list ms' < 2 ^ 53 / 2 ^ k" using total n' less.prems(2) by linarith
    from tree8_carries [OF assms R(2,3) bt]
    have t: "carries k (sum_list ms') (tree8 r')" and tv: "val (tree8 r') = sum_list (map val r')"
      by simp_all
    have bf: "sum_list ms' + (\<Sum>q\<leftarrow>qs'. \<bar>q\<bar>) < 2 ^ 53 / 2 ^ k"
      using total less.prems(2) by simp
    from foldl_carries [OF assms t R(4) bf]
    have f: "carries k (sum_list ms' + (\<Sum>q\<leftarrow>qs'. \<bar>q\<bar>)) (foldl fadd (tree8 r') (map Fin qs'))"
      and fv: "val (foldl fadd (tree8 r') (map Fin qs')) = val (tree8 r') + sum_list qs'"
      by simp_all
    have vc: "map val (map Fin c) = c" by (simp add: val_def comp_def)
    have "pairwise_sum (map Fin qs) = foldl fadd (tree8 r') (map Fin qs')"
      using block R(1)
      by (simp add: pairwise_sum.simps [of "map Fin qs"] c_def qs2_def take_map drop_map)
    moreover have "val (tree8 r') + sum_list qs' = sum_list qs"
      using tv R(6) unfolding vc by (simp add: qs)
    ultimately show ?thesis using f fv total by simp
  next
    case split
    define n2 where "n2 = length qs div 2 - (length qs div 2) mod 8"
    define a where "a = take n2 qs"
    define b where "b = drop n2 qs"
    have qs: "qs = a @ b" by (simp add: a_def b_def)
    have n2: "0 < n2" "n2 < length qs" using split by (simp_all add: n2_def)
    have la: "length a < length qs" and lb: "length b < length qs"
      using n2 by (simp_all add: a_def b_def)
    have da: "\<forall>q\<in>set a. q * 2 ^ k \<in> \<int>" and db: "\<forall>q\<in>set b. q * 2 ^ k \<in> \<int>"
      using less.prems(1) by (auto simp: qs)
    have na: "0 \<le> (\<Sum>q\<leftarrow>a. \<bar>q\<bar>)" and nb: "0 \<le> (\<Sum>q\<leftarrow>b. \<bar>q\<bar>)"
      by (rule sum_list_nonneg, auto)+
    have tot: "(\<Sum>q\<leftarrow>a. \<bar>q\<bar>) + (\<Sum>q\<leftarrow>b. \<bar>q\<bar>) = (\<Sum>q\<leftarrow>qs. \<bar>q\<bar>)" by (simp add: qs)
    have ba: "(\<Sum>q\<leftarrow>a. \<bar>q\<bar>) < 2 ^ 53 / 2 ^ k" and bb: "(\<Sum>q\<leftarrow>b. \<bar>q\<bar>) < 2 ^ 53 / 2 ^ k"
      using tot na nb less.prems(2) by linarith+
    from less.hyps [OF la da ba]
    have A: "carries k (\<Sum>q\<leftarrow>a. \<bar>q\<bar>) (pairwise_sum (map Fin a))"
      and Av: "val (pairwise_sum (map Fin a)) = sum_list a" by simp_all
    from less.hyps [OF lb db bb]
    have B: "carries k (\<Sum>q\<leftarrow>b. \<bar>q\<bar>) (pairwise_sum (map Fin b))"
      and Bv: "val (pairwise_sum (map Fin b)) = sum_list b" by simp_all
    have bt: "(\<Sum>q\<leftarrow>a. \<bar>q\<bar>) + (\<Sum>q\<leftarrow>b. \<bar>q\<bar>) < 2 ^ 53 / 2 ^ k"
      using tot less.prems(2) by simp
    have sq: "sum_list qs = sum_list a + sum_list b" by (simp add: qs)
    note fc = fadd_carries [OF A B bt assms]
    have F: "carries k (\<Sum>q\<leftarrow>qs. \<bar>q\<bar>) (fadd (pairwise_sum (map Fin a)) (pairwise_sum (map Fin b)))"
      using fc unfolding tot by (rule conjunct1)
    have Fv: "val (fadd (pairwise_sum (map Fin a)) (pairwise_sum (map Fin b))) = sum_list qs"
      using fc unfolding sq Av Bv by (rule conjunct2)
    have ng: "\<not> length qs < 8" "\<not> length qs \<le> 128"
      using split by simp_all
    have tk: "take n2 (map Fin qs) = map Fin a" "drop n2 (map Fin qs) = map Fin b"
      by (simp_all add: a_def b_def take_map drop_map)
    have "pairwise_sum (map Fin qs) =
        fadd (pairwise_sum (take n2 (map Fin qs))) (pairwise_sum (drop n2 (map Fin qs)))"
      unfolding n2_def
      by (subst pairwise_sum.simps) (simp only: Let_def ng if_False length_map)
    then have "pairwise_sum (map Fin qs) =
        fadd (pairwise_sum (map Fin a)) (pairwise_sum (map Fin b))"
      by (simp only: tk)
    with F Fv show ?thesis by simp
  qed
qed

lemma series_sum_exact:
  assumes "k \<le> 1074"
    and "\<forall>v\<in>set s. present v * 2 ^ k \<in> \<int>"
    and "(\<Sum>v\<leftarrow>s. \<bar>present v\<bar>) * 2 ^ k < 2 ^ 53"
  shows "series_sum s = Fin (\<Sum>v\<leftarrow>s. present v)"
proof -
  define qs where "qs = map present s"
  have m: "map (\<lambda>v. Fin (present v)) s = map Fin qs" by (simp add: qs_def)
  have d: "\<forall>q\<in>set qs. q * 2 ^ k \<in> \<int>" using assms(2) by (simp add: qs_def)
  have "(\<Sum>q\<leftarrow>qs. \<bar>q\<bar>) * 2 ^ k < 2 ^ 53" using assms(3) by (simp add: qs_def comp_def)
  then have b: "(\<Sum>q\<leftarrow>qs. \<bar>q\<bar>) < 2 ^ 53 / 2 ^ k" by (simp add: pos_less_divide_eq)
  from pairwise_carries [OF assms(1) d b]
  have P: "carries k (\<Sum>q\<leftarrow>qs. \<bar>q\<bar>) (pairwise_sum (map Fin qs))"
    and Pv: "val (pairwise_sum (map Fin qs)) = sum_list qs" by simp_all
  have "0 + (\<Sum>q\<leftarrow>qs. \<bar>q\<bar>) < 2 ^ 53 / 2 ^ k" using b by simp
  from fadd_carries [OF carries_zero P this assms(1)]
  have "carries k (0 + (\<Sum>q\<leftarrow>qs. \<bar>q\<bar>)) (series_sum s)"
    and "val (series_sum s) = sum_list qs"
    using Pv by (simp_all add: series_sum_def m val_def)
  then show ?thesis using carries_val [of k _ "series_sum s"] by (simp add: qs_def)
qed

lemma round_big: "round_f64 10000000000000000 = Fin 10000000000000000"
proof -
  have "round_f64 10000000000000000 =
     (let ulp = 2 powi (max 53 (- 1022) - 52);
          v = of_int (round_half_even (10000000000000000 / ulp)) * ulp
      in if 2 ^ 1024 \<le> v then PInf else if v \<le> - (2 ^ 1024) then NInf else Fin v)"
    by (rule round_f64_unit) simp_all
  also have "\<dots> = Fin 10000000000000000"
  proof -
    have fl: "\<lfloor>(10000000000000000::rat) / 2\<rfloor> = 5000000000000000"
      by (rule floor_unique) simp_all
    show ?thesis by (simp add: round_half_even_def Let_def fl)
  qed
  finally show ?thesis .
qed

lemma series_sum_big:
  "series_sum [Some 10000000000000000, Some 1, Some 1] = Fin 10000000000000000"
  by (simp add: series_sum_def present_def pairwise_sum.simps round_big round_sample)

lemma column_exact:
  assumes "k \<le> 1074"
    and "\<forall>r\<in>set d. present (c r) * 2 ^ k \<in> \<int>"
    and "(\<Sum>r\<leftarrow>d. \<bar>present (c r)\<bar>) * 2 ^ k < 2 ^ 53"
  shows "series_sum (column c d) = Fin (\<Sum>r\<leftarrow>d. present (c r))"
proof -
  have 1: "\<forall>v\<in>set (column c d). present v * 2 ^ k \<in> \<int>"
    using assms(2) by (simp add: column_def)
  have 2: "(\<Sum>v\<leftarrow>column c d. \<bar>present v\<bar>) * 2 ^ k < 2 ^ 53"
    using assms(3) by (simp add: column_def comp_def)
  from series_sum_exact [OF assms(1) 1 2] show ?thesis
    by (simp add: column_def comp_def)
qed

lemma sum_list_filter_le:
  fixes f :: "'a \<Rightarrow> rat"
  shows "\<forall>x\<in>set xs. 0 \<le> f x \<Longrightarrow> sum_list (map f (filter P xs)) \<le> sum_list (map f xs)"
  by (induction xs) (auto intro: add_increasing)

text \<open>
  Claim C6, as the program computes it. For every Result Set and Filter Parameters the three
  metrics shown over the filtered subset are the number of rows that satisfy the three
  conditions, and the float64 sums that \<^verbatim>\<open>Series.sum()\<close> computes over the prices and over
  the profits of these rows, in the order of the Result Set. The float64 sum of a column of
  the filtered subset is the exact sum of that column whenever no addition rounds, which
  holds if for some \<open>k \<le> 1074\<close> every summed value is a multiple of \<open>2\<^sup>-\<^sup>k\<close> and the
  magnitudes of the summed values total less than \<open>2\<^sup>5\<^sup>3\<^sup>-\<^sup>k\<close>. In particular, for a Result Set
  of 20 rows in the categories Dessert and Main whose prices meet that condition, filtered to
  the category Dessert and the price range from 5 to 10 with every subcategory selected, the
  summed price column of the filtered subset is the sum, taken over the Result Set by hand,
  of the prices of the rows that are Dessert and priced within the range.
\<close>

theorem filter_metrics_float_sums:
  "filter_metrics (df_filtrado df F) =
     [(''Itens Filtrados'', Count (card {i. i < length df \<and> satisfies F (df ! i)})),
      (''Receita Potencial'',
         Money (series_sum (column SALE_PRICE_USD (filter (satisfies F) df)))),
      (''Lucro Potencial'',
         Money (series_sum (column PROFIT (filter (satisfies F) df))))]
   \<and> (k \<le> 1074
        \<and> (\<forall>r\<in>set (df_filtrado df F). present (c r) * 2 ^ k \<in> \<int>)
        \<and> (\<Sum>r\<leftarrow>df_filtrado df F. \<bar>present (c r)\<bar>) * 2 ^ k < 2 ^ 53
      \<longrightarrow> series_sum (column c (df_filtrado df F)) =
          Fin (\<Sum>r\<leftarrow>df_filtrado df F. present (c r)))
   \<and> (length df = 20
        \<and> set (column ITEM_CATEGORY df) = {Some ''Dessert'', Some ''Main''}
        \<and> categorias F = [Some ''Dessert'']
        \<and> set (column ITEM_SUBCATEGORY df) \<subseteq> set (subcategorias F)
        \<and> preco_min F = 5 \<and> preco_max F = 10
        \<and> k \<le> 1074
        \<and> (\<forall>r\<in>set df. present (SALE_PRICE_USD r) * 2 ^ k \<in> \<int>)
        \<and> (\<Sum>r\<leftarrow>df. \<bar>present (SALE_PRICE_USD r)\<bar>) * 2 ^ k < 2 ^ 53
      \<longrightarrow> series_sum (column SALE_PRICE_USD (df_filtrado df F)) =
          Fin (\<Sum>i | i < 20 \<and> ITEM_CATEGORY (df ! i) = Some ''Dessert''
                 \<and> (\<exists>p. SALE_PRICE_USD (df ! i) = Some p \<and> 5 \<le> p \<and> p \<le> 10).
             present (SALE_PRICE_USD (df ! i))))"
proof (intro conjI impI)
  show "filter_metrics (df_filtrado df F) =
     [(''Itens Filtrados'', Count (card {i. i < length df \<and> satisfies F (df ! i)})),
      (''Receita Potencial'',
         Money (series_sum (column SALE_PRICE_USD (filter (satisfies F) df)))),
      (''Lucro Potencial'',
         Money (series_sum (column PROFIT (filter (satisfies F) df))))]"
    by (simp add: filter_metrics_def df_filtrado_filter length_filter_conv_card)
next
  assume h: "k \<le> 1074
        \<and> (\<forall>r\<in>set (df_filtrado df F). present (c r) * 2 ^ k \<in> \<int>)
        \<and> (\<Sum>r\<leftarrow>df_filtrado df F. \<bar>present (c r)\<bar>) * 2 ^ k < 2 ^ 53"
  then have 1: "k \<le> 1074"
    and 2: "\<forall>r\<in>set (df_filtrado df F). present (c r) * 2 ^ k \<in> \<int>"
    and 3: "(\<Sum>r\<leftarrow>df_filtrado df F. \<bar>present (c r)\<bar>) * 2 ^ k < 2 ^ 53"
    by blast+
  from column_exact [OF 1 2 3]
  show "series_sum (column c (df_filtrado df F)) = Fin (\<Sum>r\<leftarrow>df_filtrado df F. present (c r))" .
next
  assume h: "length df = 20
        \<and> set (column ITEM_CATEGORY df) = {Some ''Dessert'', Some ''Main''}
        \<and> categorias F = [Some ''Dessert'']
        \<and> set (column ITEM_SUBCATEGORY df) \<subseteq> set (subcategorias F)
        \<and> preco_min F = 5 \<and> preco_max F = 10
        \<and> k \<le> 1074
        \<and> (\<forall>r\<in>set df. present (SALE_PRICE_USD r) * 2 ^ k \<in> \<int>)
        \<and> (\<Sum>r\<leftarrow>df. \<bar>present (SALE_PRICE_USD r)\<bar>) * 2 ^ k < 2 ^ 53"
  have sub: "cond_subcategory F (df ! i)" if "i < length df" for i
  proof -
    from that have "ITEM_SUBCATEGORY (df ! i) \<in> set (column ITEM_SUBCATEGORY df)"
      by (simp add: column_def)
    with h show ?thesis by (auto simp: cond_subcategory_def)
  qed
  have rows: "{i. i < length df \<and> satisfies F (df ! i)} =
      {i. i < 20 \<and> ITEM_CATEGORY (df ! i) = Some ''Dessert''
           \<and> (\<exists>p. SALE_PRICE_USD (df ! i) = Some p \<and> 5 \<le> p \<and> p \<le> 10)}"
    using h sub
    by (auto simp: satisfies_def cond_category_def cond_price_def split: option.splits)
  have k: "k \<le> 1074" using h by blast
  have dy: "\<forall>r\<in>set (df_filtrado df F). present (SALE_PRICE_USD r) * 2 ^ k \<in> \<int>"
    using h by (simp add: df_filtrado_filter)
  have "(\<Sum>r\<leftarrow>df_filtrado df F. \<bar>present (SALE_PRICE_USD r)\<bar>)
      \<le> (\<Sum>r\<leftarrow>df. \<bar>present (SALE_PRICE_USD r)\<bar>)"
    unfolding df_filtrado_filter by (rule sum_list_filter_le) simp
  then have "(\<Sum>r\<leftarrow>df_filtrado df F. \<bar>present (SALE_PRICE_USD r)\<bar>) * 2 ^ k
      \<le> (\<Sum>r\<leftarrow>df. \<bar>present (SALE_PRICE_USD r)\<bar>) * 2 ^ k"
    by (intro mult_right_mono) simp_all
  moreover have "(\<Sum>r\<leftarrow>df. \<bar>present (SALE_PRICE_USD r)\<bar>) * 2 ^ k < 2 ^ 53" using h by blast
  ultimately have bd: "(\<Sum>r\<leftarrow>df_filtrado df F. \<bar>present (SALE_PRICE_USD r)\<bar>) * 2 ^ k < 2 ^ 53"
    by linarith
  have "(\<Sum>r\<leftarrow>df_filtrado df F. present (SALE_PRICE_USD r)) =
      (\<Sum>i | i < length df \<and> satisfies F (df ! i). present (SALE_PRICE_USD (df ! i)))"
    unfolding df_filtrado_filter
    by (rule sum_list_filter_positions)
  then have ex: "(\<Sum>r\<leftarrow>df_filtrado df F. present (SALE_PRICE_USD r)) =
      (\<Sum>i | i < 20 \<and> ITEM_CATEGORY (df ! i) = Some ''Dessert''
                 \<and> (\<exists>p. SALE_PRICE_USD (df ! i) = Some p \<and> 5 \<le> p \<and> p \<le> 10).
             present (SALE_PRICE_USD (df ! i)))"
    by (simp only: rows)
  from column_exact [OF k dy bd]
  show "series_sum (column SALE_PRICE_USD (df_filtrado df F)) =
          Fin (\<Sum>i | i < 20 \<and> ITEM_CATEGORY (df ! i) = Some ''Dessert''
                 \<and> (\<exists>p. SALE_PRICE_USD (df ! i) = Some p \<and> 5 \<le> p \<and> p \<le> 10).
             present (SALE_PRICE_USD (df ! i)))"
    by (simp only: ex)
qed

lemma sample_quarters:
  "\<forall>r\<in>set sample_menu. present (SALE_PRICE_USD r) * 2 ^ 2 \<in> \<int>"
  by (simp add: sample_menu_def sample_row_def present_def)

lemma sample_filtered_quarters:
  "\<forall>r\<in>set (df_filtrado sample_menu sample_filter). present (SALE_PRICE_USD r) * 2 ^ 2 \<in> \<int>"
  "\<forall>r\<in>set (df_filtrado sample_menu sample_filter). present (PROFIT r) * 2 ^ 2 \<in> \<int>"
  by (simp_all add: sample_filtered sample_row_def present_def)

lemma sample_sums:
  "(\<Sum>r\<leftarrow>df_filtrado sample_menu sample_filter. \<bar>present (SALE_PRICE_USD r)\<bar>) = 34"
  "(\<Sum>r\<leftarrow>df_filtrado sample_menu sample_filter. present (SALE_PRICE_USD r)) = 34"
  "(\<Sum>r\<leftarrow>df_filtrado sample_menu sample_filter. \<bar>present (PROFIT r)\<bar>) = 85/4"
  "(\<Sum>r\<leftarrow>df_filtrado sample_menu sample_filter. present (PROFIT r)) = 85/4"
  by (simp_all add: sample_filtered sample_row_def present_def)

lemma sample_total: "(\<Sum>r\<leftarrow>sample_menu. \<bar>present (SALE_PRICE_USD r)\<bar>) = 801/4"
  by (simp add: sample_menu_def sample_row_def present_def)

theorem filter_metrics_float_sums_witness:
  "length sample_menu = 20
   \<and> set (column ITEM_CATEGORY sample_menu) = {Some ''Dessert'', Some ''Main''}
   \<and> categorias sample_filter = [Some ''Dessert'']
   \<and> set (column ITEM_SUBCATEGORY sample_menu) \<subseteq> set (subcategorias sample_filter)
   \<and> preco_min sample_filter = 5 \<and> preco_max sample_filter = 10
   \<and> (2::nat) \<le> 1074
   \<and> (\<Sum>r\<leftarrow>sample_menu. \<bar>present (SALE_PRICE_USD r)\<bar>) * 2 ^ 2 < 2 ^ 53
   \<and> filter_metrics (df_filtrado sample_menu sample_filter) =
       [(''Itens Filtrados'', Count 5), (''Receita Potencial'', Money (Fin 34)),
        (''Lucro Potencial'', Money (Fin (85/4)))]
   \<and> (\<Sum>i | i < 20 \<and> ITEM_CATEGORY (sample_menu ! i) = Some ''Dessert''
            \<and> (\<exists>p. SALE_PRICE_USD (sample_menu ! i) = Some p \<and> 5 \<le> p \<and> p \<le> 10).
         present (SALE_PRICE_USD (sample_menu ! i))) = 34"
proof -
  note T = filter_metrics_float_sums [of sample_menu sample_filter 2 SALE_PRICE_USD]
  note P = filter_metrics_float_sums [of sample_menu sample_filter 2 PROFIT]
  have n: "length sample_menu = 20" by (simp add: sample_menu_def)
  have cats: "set (column ITEM_CATEGORY sample_menu) = {Some ''Dessert'', Some ''Main''}"
    by (simp add: column_def sample_menu_def sample_row_def)
  have subs: "set (column ITEM_SUBCATEGORY sample_menu) \<subseteq> set (subcategorias sample_filter)"
    by (simp add: column_def sample_menu_def sample_row_def sample_filter_def)
  have F: "categorias sample_filter = [Some ''Dessert'']"
      "preco_min sample_filter = 5" "preco_max sample_filter = 10"
    by (simp_all add: sample_filter_def)
  have two: "(2::nat) \<le> 1074" by simp
  have tot: "(\<Sum>r\<leftarrow>sample_menu. \<bar>present (SALE_PRICE_USD r)\<bar>) * 2 ^ 2 < 2 ^ 53"
    by (simp add: sample_total)
  have bs: "(\<Sum>r\<leftarrow>df_filtrado sample_menu sample_filter. \<bar>present (SALE_PRICE_USD r)\<bar>) * 2 ^ 2
      < 2 ^ 53"
    by (simp add: sample_sums)
  have bp: "(\<Sum>r\<leftarrow>df_filtrado sample_menu sample_filter. \<bar>present (PROFIT r)\<bar>) * 2 ^ 2 < 2 ^ 53"
    by (simp add: sample_sums)
  from T two sample_filtered_quarters(1) bs
  have rs: "series_sum (column SALE_PRICE_USD (df_filtrado sample_menu sample_filter)) = Fin 34"
    unfolding sample_sums by blast
  from P two sample_filtered_quarters(2) bp
  have rp: "series_sum (column PROFIT (df_filtrado sample_menu sample_filter)) = Fin (85/4)"
    unfolding sample_sums by blast
  have cnt: "card {i. i < length sample_menu \<and> satisfies sample_filter (sample_menu ! i)} = 5"
    using length_filter_conv_card [of "satisfies sample_filter" sample_menu]
    by (simp add: df_filtrado_filter [symmetric] sample_filtered)
  from T have "filter_metrics (df_filtrado sample_menu sample_filter) =
     [(''Itens Filtrados'',
       Count (card {i. i < length sample_menu \<and> satisfies sample_filter (sample_menu ! i)})),
      (''Receita Potencial'',
         Money (series_sum (column SALE_PRICE_USD (filter (satisfies sample_filter) sample_menu)))),
      (''Lucro Potencial'',
         Money (series_sum (column PROFIT (filter (satisfies sample_filter) sample_menu))))]"
    by (rule conjunct1)
  then have m: "filter_metrics (df_filtrado sample_menu sample_filter) =
       [(''Itens Filtrados'', Count 5), (''Receita Potencial'', Money (Fin 34)),
        (''Lucro Potencial'', Money (Fin (85/4)))]"
    unfolding df_filtrado_filter [symmetric] rs rp cnt .
  from T n cats subs F two sample_quarters tot
  have "series_sum (column SALE_PRICE_USD (df_filtrado sample_menu sample_filter)) =
      Fin (\<Sum>i | i < 20 \<and> ITEM_CATEGORY (sample_menu ! i) = Some ''Dessert''
            \<and> (\<exists>p. SALE_PRICE_USD (sample_menu ! i) = Some p \<and> 5 \<le> p \<and> p \<le> 10).
         present (SALE_PRICE_USD (sample_menu ! i)))"
    by blast
  with rs have manual: "(\<Sum>i | i < 20 \<and> ITEM_CATEGORY (sample_menu ! i) = Some ''Dessert''
            \<and> (\<exists>p. SALE_PRICE_USD (sample_menu ! i) = Some p \<and> 5 \<le> p \<and> p \<le> 10).
         present (SALE_PRICE_USD (sample_menu ! i))) = 34"
    by simp
  from n cats subs F two tot m manual show ?thesis by blast
qed

lemma big_filtered: "df_filtrado big_menu open_filter = big_menu"
  by (simp add: df_filtrado_filter big_menu_def open_filter_def sample_row_def satisfies_def
      cond_category_def cond_subcategory_def cond_price_def)

text \<open>
  Claim C6 read with exact sums fails. On three rows priced 10000000000000000, 1 and 1, all
  retained by the filter, the revenue metric is the float64 10000000000000000, as each
  addition of 1 rounds back to it, while the prices of the filtered subset add up to
  10000000000000002; the profits, equal to the prices here, behave alike. The two numbers
  differ in the text shown with two decimals.
\<close>

theorem filter_metrics_not_exact_sums:
  "filter_metrics (df_filtrado big_menu open_filter) =
     [(''Itens Filtrados'', Count 3),
      (''Receita Potencial'', Money (Fin 10000000000000000)),
      (''Lucro Potencial'', Money (Fin 10000000000000000))]
   \<and> sum_list (map present (column SALE_PRICE_USD (df_filtrado big_menu open_filter))) =
       10000000000000002
   \<and> sum_list (map present (column PROFIT (df_filtrado big_menu open_filter))) =
       10000000000000002
   \<and> filter_metrics (df_filtrado big_menu open_filter) ! 1 \<noteq>
       (''Receita Potencial'',
        Money (Fin (sum_list (map present
          (column SALE_PRICE_USD (df_filtrado big_menu open_filter))))))"
proof -
  have c: "column SALE_PRICE_USD big_menu = [Some 10000000000000000, Some 1, Some 1]"
    "column PROFIT big_menu = [Some 10000000000000000, Some 1, Some 1]"
    by (simp_all add: column_def big_menu_def sample_row_def)
  have m: "filter_metrics (df_filtrado big_menu open_filter) =
     [(''Itens Filtrados'', Count 3),
      (''Receita Potencial'', Money (Fin 10000000000000000)),
      (''Lucro Potencial'', Money (Fin 10000000000000000))]"
    unfolding big_filtered filter_metrics_def c series_sum_big
    by (simp add: big_menu_def)
  have s: "sum_list (map present (column SALE_PRICE_USD (df_filtrado big_menu open_filter))) =
       10000000000000002"
    "sum_list (map present (column PROFIT (df_filtrado big_menu open_filter))) =
       10000000000000002"
    unfolding big_filtered c by (simp_all add: present_def)
  have "filter_metrics (df_filtrado big_menu open_filter) ! 1 \<noteq>
       (''Receita Potencial'',
        Money (Fin (sum_list (map present
          (column SALE_PRICE_USD (df_filtrado big_menu open_filter))))))"
    unfolding m s by simp
  with m s show ?thesis by blast
qed

section \<open>Properties of the ten largest margins\<close>

lemma nlargest_take: "nlargest n c df = take n (ranking c df)"
  by (simp only: nlargest_def ranking_def Let_def)

lemma set_ranking: "set (ranking c df) = set (enumerate 0 df)"
  by (auto simp: ranking_def)

lemma length_ranking: "length (ranking c df) = length df"
proof -
  have eq: "(\<lambda>(i, r). c r = None) = (\<lambda>p. \<not> (case p of (i, r) \<Rightarrow> c r \<noteq> None))"
    by (simp add: fun_eq_iff)
  show ?thesis
    unfolding ranking_def eq
    by (simp only: length_append length_sort sum_length_filter_compl length_enumerate)
qed

lemma distinct_map_insort_key:
  "distinct (map f (insort_key k x xs)) \<longleftrightarrow> f x \<notin> f ` set xs \<and> distinct (map f xs)"
  by (induction xs) (auto simp: set_insort_key)

lemma distinct_map_sort_key:
  "distinct (map f (sort_key k xs)) = distinct (map f xs)"
  by (induction xs) (simp_all add: distinct_map_insort_key)

lemma distinct_fst_ranking: "distinct (map fst (ranking c df))"
proof -
  have d: "distinct (map fst (enumerate 0 df))" by simp
  have 1: "distinct (map fst (sort_key (\<lambda>(i, r). - present (c r))
      (filter (\<lambda>(i, r). c r \<noteq> None) (enumerate 0 df))))"
    unfolding distinct_map_sort_key by (rule distinct_map_filter) (rule d)
  have 2: "distinct (map fst (filter (\<lambda>(i, r). c r = None) (enumerate 0 df)))"
    by (rule distinct_map_filter) (rule d)
  have 3: "fst ` set (sort_key (\<lambda>(i, r). - present (c r))
        (filter (\<lambda>(i, r). c r \<noteq> None) (enumerate 0 df)))
      \<inter> fst ` set (filter (\<lambda>(i, r). c r = None) (enumerate 0 df)) = {}"
    by (auto simp: in_set_enumerate_eq)
  from 1 2 3 show ?thesis
    unfolding ranking_def map_append distinct_append set_map by blast
qed

lemma sorted_wrt_all: "(\<And>x y. x \<in> set xs \<Longrightarrow> y \<in> set xs \<Longrightarrow> R x y) \<Longrightarrow> sorted_wrt R xs"
  by (induction xs) auto

lemma sorted_ranking:
  "sorted_wrt (\<lambda>a b. dominates (c (snd a)) (c (snd b))) (ranking c df)"
proof -
  let ?k = "\<lambda>(i, r). - present (c r)"
  let ?D = "filter (\<lambda>(i, r). c r \<noteq> None) (enumerate 0 df)"
  let ?N = "filter (\<lambda>(i, r). c r = None) (enumerate 0 df)"
  let ?R = "\<lambda>a b. dominates (c (snd a)) (c (snd b))"
  have "sorted (map ?k (sort_key ?k ?D))" by (rule sorted_sort_key)
  then have "sorted_wrt (\<lambda>a b. ?k a \<le> ?k b) (sort_key ?k ?D)"
    by (simp add: sorted_map)
  then have 1: "sorted_wrt ?R (sort_key ?k ?D)"
  proof (rule sorted_wrt_mono_rel [rotated])
    fix a b
    assume "a \<in> set (sort_key ?k ?D)" and "b \<in> set (sort_key ?k ?D)"
      and le: "?k a \<le> ?k b"
    then have "a \<in> set ?D" and "b \<in> set ?D" by simp_all
    then obtain x y where x: "c (snd a) = Some x" and y: "c (snd b) = Some y"
      by (auto simp: case_prod_unfold)
    from le x y have "y \<le> x"
      by (simp add: present_def case_prod_unfold)
    with x y show "?R a b" by (simp add: dominates_def)
  qed
  have 2: "sorted_wrt ?R ?N"
    by (rule sorted_wrt_all) (auto simp: dominates_def)
  have 3: "\<forall>a \<in> set (sort_key ?k ?D). \<forall>b \<in> set ?N. ?R a b"
    by (auto simp: dominates_def)
  from 1 2 3 show ?thesis
    unfolding ranking_def sorted_wrt_append by blast
qed

lemma nlargest_dominates:
  assumes a: "a \<in> set (nlargest n c df)"
    and j: "j < length df" and out: "j \<notin> fst ` set (nlargest n c df)"
  shows "dominates (c (snd a)) (c (df ! j))"
proof -
  let ?L = "ranking c df"
  have "(j, df ! j) \<in> set (enumerate 0 df)"
    using j by (simp add: in_set_enumerate_eq)
  then have "(j, df ! j) \<in> set ?L" by (simp add: set_ranking)
  then have "(j, df ! j) \<in> set (take n ?L) \<union> set (drop n ?L)"
    by (metis append_take_drop_id set_append)
  moreover have "(j, df ! j) \<notin> set (take n ?L)"
    using out by (force simp: nlargest_take)
  ultimately have b: "(j, df ! j) \<in> set (drop n ?L)" by blast
  have "sorted_wrt (\<lambda>a b. dominates (c (snd a)) (c (snd b))) (take n ?L @ drop n ?L)"
    using sorted_ranking [of c df] by simp
  then have "\<forall>x \<in> set (take n ?L). \<forall>y \<in> set (drop n ?L). dominates (c (snd x)) (c (snd y))"
    unfolding sorted_wrt_append by blast
  with a b have "dominates (c (snd a)) (c (snd (j, df ! j)))"
    unfolding nlargest_take by blast
  then show ?thesis by simp
qed

lemma nlargest_rows:
  assumes "(i, r) \<in> set (nlargest n c df)"
  shows "i < length df \<and> r = df ! i"
proof -
  from assms have "(i, r) \<in> set (ranking c df)"
    by (auto simp: nlargest_take dest: in_set_takeD)
  then show ?thesis by (auto simp: set_ranking in_set_enumerate_eq)
qed

lemma length_nlargest: "length (nlargest n c df) = min n (length df)"
  by (simp add: nlargest_take length_ranking min.commute)

lemma distinct_fst_nlargest: "distinct (map fst (nlargest n c df))"
  using distinct_fst_ranking [of c df]
  by (simp add: nlargest_take take_map [symmetric] distinct_take)

text \<open>
  Claim C7. The chart grouping holds the rows with the largest margins: it has ten rows, or
  all rows when the Result Set has fewer; its rows are distinct rows of the Result Set,
  projected to item name and margin; and the margin of every selected row is at least the
  margin of every row that is not selected.
\<close>

theorem top10_largest_margins:
  "length (top10 df) = min 10 (length df)
   \<and> distinct (map fst (top10 df))
   \<and> (\<forall>(i, name, m) \<in> set (top10 df).
         i < length df \<and> name = MENU_ITEM_NAME (df ! i) \<and> m = MARGIN_PERCENT (df ! i))
   \<and> (\<forall>(i, name, m) \<in> set (top10 df). \<forall>j < length df.
         j \<notin> fst ` set (top10 df) \<longrightarrow> dominates m (MARGIN_PERCENT (df ! j)))"
proof -
  have fsts: "map fst (top10 df) = map fst (nlargest 10 MARGIN_PERCENT df)"
    by (simp add: top10_def comp_def case_prod_unfold)
  then have img: "fst ` set (top10 df) = fst ` set (nlargest 10 MARGIN_PERCENT df)"
    by (metis set_map)
  have 1: "length (top10 df) = min 10 (length df)"
    by (simp add: top10_def length_nlargest)
  have 2: "distinct (map fst (top10 df))"
    by (simp add: fsts distinct_fst_nlargest)
  have 3: "\<forall>(i, name, m) \<in> set (top10 df).
      i < length df \<and> name = MENU_ITEM_NAME (df ! i) \<and> m = MARGIN_PERCENT (df ! i)"
    by (auto simp: top10_def dest: nlargest_rows)
  have 4: "\<forall>(i, name, m) \<in> set (top10 df). \<forall>j < length df.
      j \<notin> fst ` set (top10 df) \<longrightarrow> dominates m (MARGIN_PERCENT (df ! j))"
    unfolding img
    by (auto simp: top10_def dest: nlargest_dominates)
  from 1 2 3 4 show ?thesis by blast
qed


lemma sample_top10:
  "top10 sample_menu =
     [(2, Some ''Popsicle'', Some (250/3)),
      (0, Some ''Ice Cream Sandwich'', Some 75),
      (1, Some ''Mango Sticky Rice'', Some 75),
      (10, Some ''Fried Pickles'', Some 75),
      (8, Some ''Lean Burrito Bowl'', Some 72),
      (17, Some ''Fish Burrito'', Some 70),
      (12, Some ''Chicken Pot Pie Crepe'', Some (200/3)),
      (6, Some ''Chocolate Lava Cake'', Some 65),
      (15, Some ''Tonkotsu Ramen'', Some (4100/69)),
      (11, Some ''The Gyro'', Some (650/11))]"
  by code_simp

theorem top10_largest_margins_witness:
  "length (top10 sample_menu) = 10
   \<and> (2, Some ''Popsicle'', Some (250/3)) \<in> set (top10 sample_menu)
   \<and> 2 < length sample_menu
   \<and> MARGIN_PERCENT (sample_menu ! 2) = Some (250/3)
   \<and> 3 < length sample_menu
   \<and> 3 \<notin> fst ` set (top10 sample_menu)
   \<and> dominates (Some (250/3)) (MARGIN_PERCENT (sample_menu ! 3))"
proof -
  note T = top10_largest_margins [of sample_menu]
  have n: "length sample_menu = 20" by (simp add: sample_menu_def)
  have mem: "(2, Some ''Popsicle'', Some (250/3)) \<in> set (top10 sample_menu)"
    by (simp add: sample_top10)
  have out: "3 \<notin> fst ` set (top10 sample_menu)"
    by (simp add: sample_top10)
  from T n have len: "length (top10 sample_menu) = 10" by simp
  from T have rows: "\<forall>(i, name, m) \<in> set (top10 sample_menu).
      i < length sample_menu \<and> name = MENU_ITEM_NAME (sample_menu ! i)
      \<and> m = MARGIN_PERCENT (sample_menu ! i)"
    by blast
  from bspec [OF rows mem]
  have row: "2 < length sample_menu \<and> MARGIN_PERCENT (sample_menu ! 2) = Some (250/3)"
    by simp
  from T have doms: "\<forall>(i, name, m) \<in> set (top10 sample_menu). \<forall>j < length sample_menu.
      j \<notin> fst ` set (top10 sample_menu) \<longrightarrow> dominates m (MARGIN_PERCENT (sample_menu ! j))"
    by blast
  from bspec [OF doms mem]
  have "\<forall>j < length sample_menu.
      j \<notin> fst ` set (top10 sample_menu) \<longrightarrow> dominates (Some (250/3)) (MARGIN_PERCENT (sample_menu ! j))"
    by simp
  with n out have dom: "dominates (Some (250/3)) (MARGIN_PERCENT (sample_menu ! 3))"
    by simp
  from n have three: "3 < length sample_menu" by simp
  from len mem row three out dom show ?thesis by blast
qed


section \<open>Properties of the connection and of the query cache\<close>















section \<open>How a run ends when the warehouse refuses\<close>

lemmas script_defs = run_script_def tab3_def run_query_def cache_data_def run_query_body_def
  init_connection_def cache_resource_def init_connection_body_def str_def fresh_state_def

lemma menu_query_neq: "menu_query \<noteq> ''SELEC 1''" "''SELEC 1'' \<noteq> menu_query"
  by (simp_all add: menu_query_def)

text \<open>
  Claim C3. Three runs in a fresh process. When the warehouse refuses the query of the
  dashboard, the exception leaves the script uncaught at line 125: the run ends there, no
  handler of the program reports the error, and the other tabs and the footer are not
  rendered. When the warehouse refuses a query typed in the third tab, the handler of lines
  340 to 342 shows the driver's message and the run goes on to the tutorial and the footer.
  When the credentials are refused, the handler of lines 77 to 79 shows the message and stops
  the run.
\<close>

theorem canned_query_failure_uncaught:
  "fst (run_script (denying_driver [menu_query]) stub_secrets
          \<lparr>now = 100, query_text = ''SELECT * FROM MENU LIMIT 10'', execute = False\<rparr>
          fresh_state) =
     ([Title, SidebarHeader, ConnectionSuccess, ConnectionDetails, About, DashboardHeader],
      Uncaught (Exn ''SQL compilation error''))
   \<and> fst (run_script (denying_driver [''SELEC 1'']) stub_secrets
          \<lparr>now = 100, query_text = ''SELEC 1'', execute = True\<rparr> fresh_state) =
     ([Title, SidebarHeader, ConnectionSuccess, ConnectionDetails, About, DashboardHeader,
       Dashboard [0], Explorer [0], QueryForm, QueryError, Code ''SQL compilation error'',
       Tutorial, Footer],
      Completed)
   \<and> fst (run_script unreachable_driver stub_secrets
          \<lparr>now = 100, query_text = ''SELECT * FROM MENU LIMIT 10'', execute = False\<rparr>
          fresh_state) =
     ([Title, SidebarHeader, ConnectionError ''Incorrect username or password''], Stopped)"
proof -
  have 1: "fst (run_script (denying_driver [menu_query]) stub_secrets
          \<lparr>now = 100, query_text = ''SELECT * FROM MENU LIMIT 10'', execute = False\<rparr>
          fresh_state) =
     ([Title, SidebarHeader, ConnectionSuccess, ConnectionDetails, About, DashboardHeader],
      Uncaught (Exn ''SQL compilation error''))"
    by (simp add: script_defs denying_driver_def)
  have 2: "fst (run_script (denying_driver [''SELEC 1'']) stub_secrets
          \<lparr>now = 100, query_text = ''SELEC 1'', execute = True\<rparr> fresh_state) =
     ([Title, SidebarHeader, ConnectionSuccess, ConnectionDetails, About, DashboardHeader,
       Dashboard [0], Explorer [0], QueryForm, QueryError, Code ''SQL compilation error'',
       Tutorial, Footer],
      Completed)"
    by (simp add: script_defs denying_driver_def menu_query_neq)
  have 3: "fst (run_script unreachable_driver stub_secrets
          \<lparr>now = 100, query_text = ''SELECT * FROM MENU LIMIT 10'', execute = False\<rparr>
          fresh_state) =
     ([Title, SidebarHeader, ConnectionError ''Incorrect username or password''], Stopped)"
    by (simp add: script_defs unreachable_driver_def)
  from 1 2 3 show ?thesis by blast
qed

end
